theory Spec2Isabelle
  imports Complex_Main "HOL-Library.Multiset" "HOL-Library.Product_Lexorder"
begin

section \<open>Telemetry tables and event records\<close>

text \<open>
  The exceptions the Python code can raise, as values. A result is \<open>py_error + 'a\<close>,
  with \<open>Inl\<close> the exception.
\<close>

datatype py_error = KeyError | ValueError | IndexError | TypeError | AttributeError

text \<open>
  A channel of a pandas DataFrame is a float column (\<open>None\<close> is NaN) or a column of
  dtype bool. Samples are the exact real numbers the floats denote. A DataFrame is the
  list of its named columns, all of one length, with the default row index \<open>0..n-1\<close>.
\<close>

datatype series = FloatS "real option list" | BoolS "bool list"

datatype cell = FloatV "real option" | BoolV bool

type_synonym frame = "(string \<times> series) list"

fun cells :: "series \<Rightarrow> cell list" where
  "cells (FloatS xs) = map FloatV xs"
| "cells (BoolS bs) = map BoolV bs"

fun is_bool_dtype :: "series \<Rightarrow> bool" where
  "is_bool_dtype (FloatS xs) = False"
| "is_bool_dtype (BoolS bs) = True"

definition columns :: "frame \<Rightarrow> string list" where
  "columns df = map fst df"

text \<open>\<open>df[column]\<close>: KeyError when the column is absent.\<close>

definition getitem :: "frame \<Rightarrow> string \<Rightarrow> py_error + series" where
  "getitem df c = (case map_of df c of None \<Rightarrow> Inl KeyError | Some s \<Rightarrow> Inr s)"

text \<open>\<open>df[column] = s\<close>: replaces the column of that name, or appends a new one.\<close>

fun set_column :: "string \<Rightarrow> series \<Rightarrow> frame \<Rightarrow> frame" where
  "set_column k s [] = [(k, s)]"
| "set_column k s ((k', s') # df) =
     (if k = k' then (k, s) # df else (k', s') # set_column k s df)"

record event =
  timestamp :: cell
  activity :: string
  val :: cell

record tagged_event = event +
  transition_type :: string
  subsystem :: string

text \<open>
  The dtype of the \<open>value\<close> column of an event frame (an empty frame has one too), and
  the objects a rule can append to the list \<open>frames\<close>: an event frame, or, where a rule
  names a method of the wavelet engine that returns one, a pandas Series or a table of
  denoised channels.
\<close>

datatype vdtype = DFloat | DBool | DObject

fun series_dtype :: "series \<Rightarrow> vdtype" where
  "series_dtype (FloatS xs) = DFloat"
| "series_dtype (BoolS bs) = DBool"

datatype 'r appended = EventFrame vdtype "'r list" | SeriesObject | TableObject

fun rows_of :: "'r appended \<Rightarrow> 'r list" where
  "rows_of (EventFrame d rs) = rs"
| "rows_of SeriesObject = []"
| "rows_of TableObject = []"

fun dtype_of :: "'r appended \<Rightarrow> vdtype option" where
  "dtype_of (EventFrame d rs) = Some d"
| "dtype_of SeriesObject = None"
| "dtype_of TableObject = None"

section \<open>Signal primitives of the event classifier\<close>

text \<open>The comparator table \<open>ops\<close> (the dispatcher's \<open>_OPS\<close> is the same table).\<close>

definition ops :: "string \<Rightarrow> (real \<Rightarrow> real \<Rightarrow> bool) option" where
  "ops c = (if c = ''>'' then Some (\<lambda>s t. s > t)
            else if c = ''<'' then Some (\<lambda>s t. s < t)
            else if c = ''>='' then Some (\<lambda>s t. s \<ge> t)
            else if c = ''<='' then Some (\<lambda>s t. s \<le> t)
            else if c = ''=='' then Some (\<lambda>s t. s = t)
            else None)"

text \<open>
  A comparison of a column with a number, element by element: NaN compares false, a
  boolean sample counts as 0 or 1.
\<close>

fun compare_series :: "(real \<Rightarrow> real \<Rightarrow> bool) \<Rightarrow> series \<Rightarrow> real \<Rightarrow> bool list" where
  "compare_series f (FloatS xs) t = map (\<lambda>x. case x of None \<Rightarrow> False | Some v \<Rightarrow> f v t) xs"
| "compare_series f (BoolS bs) t = map (\<lambda>b. f (if b then 1 else 0) t) bs"

text \<open>\<open>mask.shift(1, fill_value=False)\<close> and \<open>mask.shift(-i, fill_value=False)\<close>.\<close>

definition shift_fill :: "bool list \<Rightarrow> bool list" where
  "shift_fill m = (if m = [] then [] else False # butlast m)"

definition shift_back :: "nat \<Rightarrow> bool list \<Rightarrow> bool list" where
  "shift_back i m = drop i m @ replicate (min i (length m)) False"

definition rising_edge :: "bool list \<Rightarrow> bool list" where
  "rising_edge m = map2 (\<lambda>a b. a \<and> \<not> b) m (shift_fill m)"

text \<open>\<open>self.df[mask].index\<close>: the row positions where the mask is true.\<close>

definition event_indices :: "bool list \<Rightarrow> nat list" where
  "event_indices m = filter (\<lambda>i. m ! i) [0..<length m]"

text \<open>
  The loop \<open>for i in range(min_duration_rows): duration_check |= mask.shift(-i, ...)\<close>,
  started from the all-false series.
\<close>

definition duration_check :: "bool list \<Rightarrow> nat \<Rightarrow> bool list" where
  "duration_check m d =
     foldl (\<lambda>dc i. map2 (\<lambda>a b. a \<or> b) dc (shift_back i m)) (replicate (length m) False) [0..<d]"

definition detect_threshold_events ::
  "frame \<Rightarrow> string \<Rightarrow> real \<Rightarrow> string \<Rightarrow> string \<Rightarrow> int \<Rightarrow> py_error + event list" where
  "detect_threshold_events df col thr cond ev_name min_duration_rows =
     (case ops cond of
        None \<Rightarrow> Inl ValueError
      | Some f \<Rightarrow>
         (case getitem df col of
            Inl e \<Rightarrow> Inl e
          | Inr s \<Rightarrow>
             (let mask = compare_series f s thr;
                  edge = rising_edge mask;
                  edge' = (if min_duration_rows > 1
                           then map2 (\<lambda>a b. a \<and> b) edge (duration_check mask (nat min_duration_rows))
                           else edge);
                  idx = event_indices edge'
              in (case getitem df ''time.absolute'' of
                    Inl e \<Rightarrow> Inl e
                  | Inr ts \<Rightarrow>
                      Inr (map (\<lambda>i. \<lparr>timestamp = cells ts ! i, activity = ev_name,
                                      val = cells s ! i\<rparr>) idx)))))"

subsection \<open>State transitions\<close>

text \<open>
  \<open>col.shift(1)\<close> puts NaN in front. \<open>!=\<close> is true whenever a side is NaN.
\<close>

definition shift_na :: "cell list \<Rightarrow> cell list" where
  "shift_na cs = (if cs = [] then [] else FloatV None # butlast cs)"

fun isna :: "cell \<Rightarrow> bool" where
  "isna (FloatV None) = True"
| "isna c = False"

fun cell_value :: "cell \<Rightarrow> real" where
  "cell_value (FloatV (Some x)) = x"
| "cell_value (FloatV None) = 0"
| "cell_value (BoolV b) = (if b then 1 else 0)"

definition cell_ne :: "cell \<Rightarrow> cell \<Rightarrow> bool" where
  "cell_ne a b = (isna a \<or> isna b \<or> cell_value a \<noteq> cell_value b)"

definition changed :: "bool \<Rightarrow> cell list \<Rightarrow> bool list" where
  "changed ignore_nan cs =
     map2 (\<lambda>c p. if ignore_nan then cell_ne c p \<and> \<not> isna c \<and> \<not> isna p else cell_ne c p)
       cs (shift_na cs)"

text \<open>
  Python's \<open>format(x, ".0f")\<close>: round half to even, keep the sign, \<open>nan\<close> for NaN.
  (A real number has no negative zero: the label \<open>-0\<close> of the float \<open>-0.0\<close> is not
  represented.)
\<close>

fun digits :: "nat \<Rightarrow> string" where
  "digits n = (if n < 10 then [''0123456789'' ! n]
               else digits (n div 10) @ [''0123456789'' ! (n mod 10)])"

definition round_half_even :: "real \<Rightarrow> int" where
  "round_half_even x =
     (let f = \<lfloor>x\<rfloor>; d = x - of_int f
      in if d < 1/2 then f else if d > 1/2 then f + 1 else if even f then f else f + 1)"

definition fmt0 :: "real \<Rightarrow> string" where
  "fmt0 x = (if x < 0 then ''-'' else '''') @ digits (nat (round_half_even \<bar>x\<bar>))"

fun show_cell :: "bool \<Rightarrow> cell \<Rightarrow> string" where
  "show_cell is_b (FloatV None) = ''nan''"
| "show_cell is_b (FloatV (Some x)) = fmt0 x"
| "show_cell is_b (BoolV b) = (if is_b then (if b then ''True'' else ''False'')
                                else fmt0 (if b then 1 else 0))"

text \<open>The inner function \<open>_label\<close>; \<open>first_idx\<close> is row 0.\<close>

definition label :: "string \<Rightarrow> bool \<Rightarrow> cell list \<Rightarrow> nat \<Rightarrow> string" where
  "label prefix is_b cs i =
     (if i = 0 then prefix @ '' Start''
      else prefix @ '' '' @ show_cell is_b (shift_na cs ! i) @ ''->'' @ show_cell is_b (cs ! i))"

definition detect_state_change_events ::
  "frame \<Rightarrow> string \<Rightarrow> string \<Rightarrow> bool \<Rightarrow> py_error + event list" where
  "detect_state_change_events df col prefix ignore_nan =
     (case getitem df col of
        Inl e \<Rightarrow> Inl e
      | Inr s \<Rightarrow>
         (let cs = cells s;
              idx = event_indices (changed ignore_nan cs)
          in if length idx = 0 then Inr []
             else (case getitem df ''time.absolute'' of
                     Inl e \<Rightarrow> Inl e
                   | Inr ts \<Rightarrow>
                       Inr (map (\<lambda>i. \<lparr>timestamp = cells ts ! i,
                                       activity = label prefix (is_bool_dtype s) cs i,
                                       val = cs ! i\<rparr>) idx))))"

subsection \<open>Combined conditions\<close>

text \<open>
  The list comprehension \<open>[ops[op](self.df[col], thr) for col, op, thr in conditions]\<close>:
  an unknown operator or an absent column raises KeyError at the first such triple.
\<close>

fun build_masks :: "frame \<Rightarrow> (string \<times> string \<times> real) list \<Rightarrow> py_error + bool list list" where
  "build_masks df [] = Inr []"
| "build_masks df ((col, opr, thr) # cs) =
     (case ops opr of
        None \<Rightarrow> Inl KeyError
      | Some f \<Rightarrow>
         (case getitem df col of
            Inl e \<Rightarrow> Inl e
          | Inr s \<Rightarrow>
             (case build_masks df cs of
                Inl e \<Rightarrow> Inl e
              | Inr ms \<Rightarrow> Inr (compare_series f s thr # ms))))"

text \<open>Both branches read \<open>masks[0]\<close>, an IndexError on the empty list.\<close>

definition combine :: "string \<Rightarrow> bool list list \<Rightarrow> py_error + bool list" where
  "combine mode masks =
     (if mode = ''all''
      then (case masks of
              [] \<Rightarrow> Inl IndexError
            | m # ms \<Rightarrow> Inr (foldl (\<lambda>c m'. map2 (\<lambda>a b. a \<and> b) c m') m ms))
      else (case masks of
              [] \<Rightarrow> Inl IndexError
            | m # ms \<Rightarrow> Inr (foldl (\<lambda>c m'. map2 (\<lambda>a b. a \<or> b) c m') m ms)))"

definition detect_combined_condition_events ::
  "frame \<Rightarrow> (string \<times> string \<times> real) list \<Rightarrow> string \<Rightarrow> string \<Rightarrow> py_error + event list" where
  "detect_combined_condition_events df conds ev_name mode =
     (case build_masks df conds of
        Inl e \<Rightarrow> Inl e
      | Inr masks \<Rightarrow>
         (case combine mode masks of
            Inl e \<Rightarrow> Inl e
          | Inr combined \<Rightarrow>
             (let idx = event_indices (rising_edge combined)
              in (case getitem df ''time.absolute'' of
                    Inl e \<Rightarrow> Inl e
                  | Inr ts \<Rightarrow>
                      Inr (map (\<lambda>i. \<lparr>timestamp = cells ts ! i, activity = ev_name,
                                      val = FloatV None\<rparr>) idx)))))"

subsection \<open>Local extrema\<close>

text \<open>
  Three library functions are parameters of the model. \<open>find_peaks\<close> is scipy's peak
  finder. \<open>argsort\<close> is the index sort behind pandas' \<open>sort_values\<close>, which the code
  calls with the default algorithm (quicksort, which pandas documents as not stable): it
  maps the list of sort keys to the list of row positions in sorted order.
  \<open>concat_frames\<close> is what \<open>pd.concat\<close> and the \<open>sort_values\<close> call after it make of a
  list of appended objects that are not all event frames of one value dtype: pandas may
  convert the values, add rows for a Series or a table, or raise.
\<close>

record externals =
  argsort :: "(bool \<times> real) list \<Rightarrow> nat list"
  find_peaks :: "real list \<Rightarrow> int \<Rightarrow> real \<Rightarrow> py_error + nat list"
  concat_frames :: "tagged_event appended list \<Rightarrow> py_error + tagged_event list"

text \<open>The sort key of a timestamp: missing timestamps go last (\<open>na_position='last'\<close>).\<close>

definition ts_key :: "cell \<Rightarrow> bool \<times> real" where
  "ts_key c = (isna c, cell_value c)"

definition sort_values :: "((bool \<times> real) list \<Rightarrow> nat list) \<Rightarrow> ('a \<Rightarrow> cell) \<Rightarrow> 'a list \<Rightarrow> 'a list" where
  "sort_values srt ts rows = map (\<lambda>i. rows ! i) (srt (map (\<lambda>r. ts_key (ts r)) rows))"

text \<open>
  What the library promises of \<open>argsort\<close>: a permutation of the row positions that puts
  the keys in ascending order.
\<close>

definition argsort_ok :: "((bool \<times> real) list \<Rightarrow> nat list) \<Rightarrow> bool" where
  "argsort_ok srt =
     (\<forall>ks. mset (srt ks) = mset [0..<length ks] \<and> sorted (map (\<lambda>i. ks ! i) (srt ks)))"

text \<open>A sort that keeps the promise: the stable one.\<close>

definition stable_argsort :: "(bool \<times> real) list \<Rightarrow> nat list" where
  "stable_argsort ks = map snd (sort_key fst (zip ks [0..<length ks]))"

definition detect_local_extrema_events ::
  "externals \<Rightarrow> frame \<Rightarrow> string \<Rightarrow> string \<Rightarrow> string \<Rightarrow> int \<Rightarrow> real \<Rightarrow> py_error + event list" where
  "detect_local_extrema_events ext df col name_max name_min window prom =
     (case getitem df col of
        Inl e \<Rightarrow> Inl e
      | Inr s \<Rightarrow>
         (case s of
            BoolS bs \<Rightarrow>
              (case find_peaks ext (map (\<lambda>b. if b then 1 else 0) bs) window prom of
                 Inl e \<Rightarrow> Inl e
               | Inr peaks_max \<Rightarrow> Inl TypeError)
          | FloatS xs \<Rightarrow>
              (let vals = map (\<lambda>x. case x of None \<Rightarrow> 0 | Some v \<Rightarrow> v) xs
               in (case find_peaks ext vals window prom of
                     Inl e \<Rightarrow> Inl e
                   | Inr peaks_max \<Rightarrow>
                      (case find_peaks ext (map uminus vals) window prom of
                         Inl e \<Rightarrow> Inl e
                       | Inr peaks_min \<Rightarrow>
                          (if \<exists>i \<in> set peaks_max. length xs \<le> i then Inl IndexError
                           else (case getitem df ''time.absolute'' of
                                   Inl e \<Rightarrow> Inl e
                                 | Inr ts \<Rightarrow>
                                    (if \<exists>i \<in> set peaks_min. length xs \<le> i then Inl IndexError
                                     else Inr (sort_values (argsort ext) timestamp
                                       (map (\<lambda>i. \<lparr>timestamp = cells ts ! i, activity = name_max,
                                                    val = FloatV (xs ! i)\<rparr>) peaks_max
                                        @ map (\<lambda>i. \<lparr>timestamp = cells ts ! i, activity = name_min,
                                                      val = FloatV (xs ! i)\<rparr>) peaks_min))))))))))"

section \<open>Rule arguments and diagnostics\<close>

text \<open>
  The \<open>args\<close> dict of a rule: the keyword arguments of the methods of the event
  classifier and of the wavelet engine. A key that may be absent is an option; a value
  that is present is well-typed.
\<close>

record args =
  a_column :: "string option"
  a_threshold :: "real option"
  a_condition :: "string option"
  a_event_name :: "string option"
  a_min_duration_rows :: "int option"
  a_event_name_prefix :: "string option"
  a_ignore_nan :: "bool option"
  a_conditions :: "(string \<times> string \<times> real) list option"
  a_mode :: "string option"
  a_event_name_max :: "string option"
  a_event_name_min :: "string option"
  a_window_size :: "int option"
  a_prominence :: "real option"
  a_threshold_sigma :: "real option"
  a_columns :: "string list option"
  a_window :: "int option"

text \<open>
  Non-fatal diagnostics (\<open>warnings.warn\<close>), collected in order: a skipped rule with
  the absent column or columns and the rule's name, an absent column of the wavelet
  engine (in change-point detection, in \<open>denoise_all\<close>), and a failed rule with its
  subsystem, its arguments and the exception.
\<close>

datatype diag =
    ColumnNotFound string string
  | ColumnsNotFound "string list" string
  | EnergyColumnNotFound string
  | DenoiseColumnNotFound string
  | ProcessingError string args py_error

section \<open>Wavelet engine: energy change points\<close>

text \<open>
  The samples are float64 values, written as the real numbers they denote. \<open>fl\<close> is
  the rounding of IEEE 754 double precision: to the nearest value with a 53-bit
  significand (subnormal below \<open>2^-1022\<close>), ties to the even significand. Overflow to
  infinity is not modelled. \<open>float_exponent\<close> finds the binary exponent of a non-zero
  number by stepping from 0; the fuel covers the whole range of double precision.
\<close>

definition pow2 :: "int \<Rightarrow> real" where
  "pow2 e = (if 0 \<le> e then 2 ^ nat e else 1 / 2 ^ nat (- e))"

fun float_exponent :: "nat \<Rightarrow> real \<Rightarrow> int \<Rightarrow> int" where
  "float_exponent fuel x e =
     (if fuel = 0 then e
      else if pow2 (e + 1) \<le> \<bar>x\<bar> then float_exponent (fuel - 1) x (e + 1)
      else if \<bar>x\<bar> < pow2 e then float_exponent (fuel - 1) x (e - 1)
      else e)"

definition fl :: "real \<Rightarrow> real" where
  "fl x = (if x = 0 then 0
           else (let q = pow2 (max (float_exponent 2200 x 0 - 52) (- 1074))
                 in of_int (round_half_even (x / q)) * q))"

text \<open>
  The sum of a float64 array as numpy computes it (pairwise summation): fewer than 8
  elements are added in order; up to 128 elements are added in eight interleaved lanes,
  the lanes combined pairwise and the remainder added in order; a longer array is split
  near the middle at a multiple of 8.
\<close>

definition seq_sum :: "real \<Rightarrow> real list \<Rightarrow> real" where
  "seq_sum acc xs = foldl (\<lambda>r a. fl (r + a)) acc xs"

definition lane :: "real list \<Rightarrow> nat \<Rightarrow> real list" where
  "lane xs k = map (\<lambda>j. xs ! (8 * j + k)) [0..<length xs div 8]"

definition block_sum :: "real list \<Rightarrow> real" where
  "block_sum xs =
     (let r = (\<lambda>k. seq_sum (xs ! k) (tl (lane xs k)));
          res = fl (fl (fl (r 0 + r 1) + fl (r 2 + r 3)) + fl (fl (r 4 + r 5) + fl (r 6 + r 7)))
      in seq_sum res (drop (length xs - length xs mod 8) xs))"

function pairwise_sum :: "real list \<Rightarrow> real" where
  "pairwise_sum xs =
     (if length xs < 8 then seq_sum 0 xs
      else if length xs \<le> 128 then block_sum xs
      else fl (pairwise_sum (take (length xs div 2 - length xs div 2 mod 8) xs)
               + pairwise_sum (drop (length xs div 2 - length xs div 2 mod 8) xs)))"
  by pat_completeness auto
termination
proof (relation "measure length")
  show "wf (measure length)" by simp
next
  fix xs :: "real list"
  assume "\<not> length xs < 8" and "\<not> length xs \<le> 128"
  then have "length xs div 2 - length xs div 2 mod 8 < length xs" by arith
  then show "(take (length xs div 2 - length xs div 2 mod 8) xs, xs) \<in> measure length"
    by simp
next
  fix xs :: "real list"
  assume "\<not> length xs < 8" and "\<not> length xs \<le> 128"
  then have "0 < length xs div 2 - length xs div 2 mod 8" by arith
  then show "(drop (length xs div 2 - length xs div 2 mod 8) xs, xs) \<in> measure length"
    by simp
qed

declare float_exponent.simps [simp del] pairwise_sum.simps [simp del]

text \<open>
  \<open>Series.mean()\<close> and \<open>Series.std()\<close> as pandas computes them: NaN entries count as 0
  in the sums and are left out of the count; the mean is the sum divided by the count;
  the standard deviation is the sample one (\<open>ddof=1\<close>, NaN on fewer than two values),
  the square root of the summed squared deviations from that mean over the count less
  one. Every operation rounds. (These are pandas' own routines; the optional bottleneck
  accelerator, which pandas uses for \<open>std\<close> when it is installed, is not modelled.)
\<close>

definition fill0 :: "real option list \<Rightarrow> real list" where
  "fill0 xs = map (\<lambda>x. case x of None \<Rightarrow> 0 | Some v \<Rightarrow> v) xs"

definition count_valid :: "real option list \<Rightarrow> nat" where
  "count_valid xs = length (filter (\<lambda>x. x \<noteq> None) xs)"

definition nanmean :: "real option list \<Rightarrow> real option" where
  "nanmean xs =
     (if count_valid xs = 0 then None
      else Some (fl (pairwise_sum (fill0 xs) / real (count_valid xs))))"

definition nanstd :: "real option list \<Rightarrow> real option" where
  "nanstd xs =
     (if count_valid xs \<le> 1 then None
      else (let avg = fl (pairwise_sum (fill0 xs) / real (count_valid xs));
                sqr = map (\<lambda>x. case x of None \<Rightarrow> 0
                                | Some v \<Rightarrow> fl (fl (avg - v) * fl (avg - v))) xs
            in Some (fl (sqrt (fl (pairwise_sum sqr / real (count_valid xs - 1)))))))"

text \<open>
  \<open>compute_energy\<close> decomposes the channel with PyWavelets, which is outside the
  repository: the energy profile it returns is the parameter \<open>ce\<close>.
\<close>

definition detect_energy_change_points ::
  "(frame \<Rightarrow> string \<Rightarrow> py_error + real option list) \<Rightarrow> frame \<Rightarrow> string \<Rightarrow> string \<Rightarrow> real
     \<Rightarrow> diag list \<times> (py_error + event list)" where
  "detect_energy_change_points ce df col ev_name threshold_sigma =
     (if col \<notin> set (columns df) then ([EnergyColumnNotFound col], Inr [])
      else (case ce df col of
              Inl e \<Rightarrow> ([], Inl e)
            | Inr energy \<Rightarrow>
               (let threshold = (case nanmean energy of
                                   None \<Rightarrow> None
                                 | Some m \<Rightarrow> (case nanstd energy of
                                                 None \<Rightarrow> None
                                               | Some sd \<Rightarrow> Some (fl (m + fl (threshold_sigma * sd)))));
                    above = map (\<lambda>x. case x of
                                        None \<Rightarrow> False
                                      | Some v \<Rightarrow> (case threshold of None \<Rightarrow> False | Some t \<Rightarrow> v > t))
                                energy;
                    idx = event_indices (rising_edge above)
                in (case getitem df ''time.absolute'' of
                      Inl e \<Rightarrow> ([], Inl e)
                    | Inr ts \<Rightarrow>
                        ([], Inr (map (\<lambda>i. \<lparr>timestamp = cells ts ! i, activity = ev_name,
                                             val = FloatV (energy ! i)\<rparr>) idx))))))"

section \<open>Rule dispatcher\<close>

text \<open>
  A rule is a dict; a field that may be absent is an option. \<open>keys\<close> lists the keys
  present in an \<open>args\<close> dict.
\<close>

record entry =
  e_subsystem :: "string option"
  e_method :: "string option"
  e_derived_column :: "(string \<times> string \<times> real) option"
  e_transition_type :: "string option"
  e_args :: "args option"

definition key :: "string \<Rightarrow> 'a option \<Rightarrow> string list" where
  "key k v = (case v of None \<Rightarrow> [] | Some x \<Rightarrow> [k])"

definition keys :: "args \<Rightarrow> string list" where
  "keys a = key ''column'' (a_column a) @ key ''threshold'' (a_threshold a)
     @ key ''condition'' (a_condition a) @ key ''event_name'' (a_event_name a)
     @ key ''min_duration_rows'' (a_min_duration_rows a)
     @ key ''event_name_prefix'' (a_event_name_prefix a) @ key ''ignore_nan'' (a_ignore_nan a)
     @ key ''conditions'' (a_conditions a) @ key ''mode'' (a_mode a)
     @ key ''event_name_max'' (a_event_name_max a) @ key ''event_name_min'' (a_event_name_min a)
     @ key ''window_size'' (a_window_size a) @ key ''prominence'' (a_prominence a)
     @ key ''threshold_sigma'' (a_threshold_sigma a)
     @ key ''columns'' (a_columns a) @ key ''window'' (a_window a)"

definition empty_args :: args where
  "empty_args = \<lparr>a_column = None, a_threshold = None, a_condition = None, a_event_name = None,
     a_min_duration_rows = None, a_event_name_prefix = None, a_ignore_nan = None,
     a_conditions = None, a_mode = None, a_event_name_max = None, a_event_name_min = None,
     a_window_size = None, a_prominence = None, a_threshold_sigma = None,
     a_columns = None, a_window = None\<rparr>"

definition get_default :: "'a option \<Rightarrow> 'a \<Rightarrow> 'a" where
  "get_default v d = (case v of None \<Rightarrow> d | Some x \<Rightarrow> x)"

text \<open>
  \<open>getattr(ec, method)(**args)\<close> on an EventClassifier: a keyword the method does not
  take, or a missing required one, is a TypeError; so is calling the attribute \<open>df\<close>; a
  name the class does not define is an AttributeError. (Names that every Python object
  inherits are not part of the model.)
\<close>

definition call_method :: "externals \<Rightarrow> frame \<Rightarrow> string \<Rightarrow> args \<Rightarrow> py_error + event list" where
  "call_method ext df m a =
     (if m = ''detect_threshold_events'' then
        (if \<not> set (keys a) \<subseteq> set [''column'', ''threshold'', ''condition'', ''event_name'',
                                      ''min_duration_rows'']
            \<or> a_column a = None \<or> a_threshold a = None \<or> a_condition a = None
            \<or> a_event_name a = None
         then Inl TypeError
         else detect_threshold_events df (the (a_column a)) (the (a_threshold a))
                (the (a_condition a)) (the (a_event_name a))
                (get_default (a_min_duration_rows a) 1))
      else if m = ''detect_state_change_events'' then
        (if \<not> set (keys a) \<subseteq> set [''column'', ''event_name_prefix'', ''ignore_nan'']
            \<or> a_column a = None \<or> a_event_name_prefix a = None
         then Inl TypeError
         else detect_state_change_events df (the (a_column a)) (the (a_event_name_prefix a))
                (get_default (a_ignore_nan a) True))
      else if m = ''detect_combined_condition_events'' then
        (if \<not> set (keys a) \<subseteq> set [''conditions'', ''event_name'', ''mode'']
            \<or> a_conditions a = None \<or> a_event_name a = None
         then Inl TypeError
         else detect_combined_condition_events df (the (a_conditions a)) (the (a_event_name a))
                (get_default (a_mode a) ''all''))
      else if m = ''detect_local_extrema_events'' then
        (if \<not> set (keys a) \<subseteq> set [''column'', ''event_name_max'', ''event_name_min'',
                                      ''window_size'', ''prominence'']
            \<or> a_column a = None \<or> a_event_name_max a = None \<or> a_event_name_min a = None
         then Inl TypeError
         else detect_local_extrema_events ext df (the (a_column a)) (the (a_event_name_max a))
                (the (a_event_name_min a)) (get_default (a_window_size a) 10)
                (get_default (a_prominence a) (1/10)))
      else if m = ''df'' then Inl TypeError
      else Inl AttributeError)"

text \<open>
  The value dtype of the frame a classifier method returns: that of the monitored
  column; \<open>object\<close> for the empty frame state-change detection returns when nothing
  changed; float for the NaN values of combined conditions and for local extrema.
\<close>

definition frame_dtype :: "frame \<Rightarrow> string \<Rightarrow> args \<Rightarrow> event list \<Rightarrow> vdtype" where
  "frame_dtype df m a evs =
     (if m = ''detect_threshold_events'' \<or> (m = ''detect_state_change_events'' \<and> evs \<noteq> [])
      then (case getitem df (get_default (a_column a) []) of
              Inl e \<Rightarrow> DObject
            | Inr s \<Rightarrow> series_dtype s)
      else if m = ''detect_state_change_events'' then DObject
      else DFloat)"

definition call_ec :: "externals \<Rightarrow> frame \<Rightarrow> string \<Rightarrow> args \<Rightarrow> py_error + event appended" where
  "call_ec ext df m a =
     (case call_method ext df m a of
        Inl e \<Rightarrow> Inl e
      | Inr evs \<Rightarrow> Inr (EventFrame (frame_dtype df m a evs) evs))"

text \<open>
  The optional wavelet engine: the table it is bound to (an address in the store below)
  and its methods that call PyWavelets: \<open>compute_energy\<close> (with the default window, and
  with a given one) and \<open>denoise_channel\<close>. \<open>denoise_all\<close> skips an absent column with
  a warning and denoises the others in turn.
\<close>

record wavelet_denoiser =
  wd_df :: nat
  compute_energy :: "frame \<Rightarrow> string \<Rightarrow> py_error + real option list"
  compute_energy_window :: "frame \<Rightarrow> string \<Rightarrow> int \<Rightarrow> py_error + real option list"
  denoise_channel :: "frame \<Rightarrow> string \<Rightarrow> py_error + real option list"

fun denoise_all ::
  "(frame \<Rightarrow> string \<Rightarrow> py_error + real option list) \<Rightarrow> frame \<Rightarrow> string list
     \<Rightarrow> diag list \<times> py_error option" where
  "denoise_all dc df [] = ([], None)"
| "denoise_all dc df (c # cs) =
     (if c \<notin> set (columns df)
      then (case denoise_all dc df cs of (ws, r) \<Rightarrow> (DenoiseColumnNotFound c # ws, r))
      else (case dc df c of
              Inl e \<Rightarrow> ([], Some e)
            | Inr values \<Rightarrow> denoise_all dc df cs))"

text \<open>
  \<open>hasattr(wd, method)\<close> holds for the names the class defines, and
  \<open>getattr(wd, method)(**args)\<close> calls them with the keywords of the rule. Besides the
  detection method, \<open>compute_energy\<close> and \<open>denoise_channel\<close> return a Series and
  \<open>denoise_all\<close> a table of the denoised channels; the attributes \<open>df\<close>, \<open>wavelet\<close>
  and \<open>level\<close> are not callable, a TypeError. (Names that every Python object inherits
  are not part of the model.)
\<close>

definition wd_hasattr :: "string \<Rightarrow> bool" where
  "wd_hasattr m = (m \<in> set [''detect_energy_change_points'', ''compute_energy'',
                             ''denoise_channel'', ''denoise_all'', ''df'', ''wavelet'', ''level''])"

definition call_wd ::
  "wavelet_denoiser \<Rightarrow> frame \<Rightarrow> string \<Rightarrow> args \<Rightarrow> diag list \<times> (py_error + event appended)" where
  "call_wd w df m a =
     (if m = ''detect_energy_change_points'' then
        (if \<not> set (keys a) \<subseteq> set [''column'', ''event_name'', ''threshold_sigma'']
            \<or> a_column a = None \<or> a_event_name a = None
         then ([], Inl TypeError)
         else (case detect_energy_change_points (compute_energy w) df (the (a_column a))
                      (the (a_event_name a)) (get_default (a_threshold_sigma a) 3) of
                 (ws, Inl e) \<Rightarrow> (ws, Inl e)
               | (ws, Inr evs) \<Rightarrow>
                   (ws, Inr (EventFrame (if the (a_column a) \<in> set (columns df) then DFloat
                                         else DObject) evs))))
      else if m = ''compute_energy'' then
        (if \<not> set (keys a) \<subseteq> set [''column'', ''window''] \<or> a_column a = None
         then ([], Inl TypeError)
         else (case (case a_window a of
                       None \<Rightarrow> compute_energy w df (the (a_column a))
                     | Some n \<Rightarrow> compute_energy_window w df (the (a_column a)) n) of
                 Inl e \<Rightarrow> ([], Inl e)
               | Inr values \<Rightarrow> ([], Inr SeriesObject)))
      else if m = ''denoise_channel'' then
        (if \<not> set (keys a) \<subseteq> set [''column''] \<or> a_column a = None
         then ([], Inl TypeError)
         else (case denoise_channel w df (the (a_column a)) of
                 Inl e \<Rightarrow> ([], Inl e)
               | Inr values \<Rightarrow> ([], Inr SeriesObject)))
      else if m = ''denoise_all'' then
        (if \<not> set (keys a) \<subseteq> set [''columns''] \<or> a_columns a = None
         then ([], Inl TypeError)
         else (case denoise_all (denoise_channel w) df (the (a_columns a)) of
                 (ws, Some e) \<Rightarrow> (ws, Inl e)
               | (ws, None) \<Rightarrow> (ws, Inr TableObject)))
      else ([], Inl TypeError))"

text \<open>
  DataFrames are objects: the store is the list of the frames allocated so far, an
  address is a position in it. \<open>df.copy(deep=False)\<close> allocates a new frame with the same
  columns; \<open>entry_df[temp_col] = derived\<close> rebinds a column of the frame at that address.
\<close>

type_synonym heap = "frame list"

definition copy_frame :: "heap \<Rightarrow> nat \<Rightarrow> heap \<times> nat" where
  "copy_frame h a = (h @ [h ! a], length h)"

definition setitem :: "heap \<Rightarrow> nat \<Rightarrow> string \<Rightarrow> series \<Rightarrow> heap" where
  "setitem h a k s = h[a := set_column k s (h ! a)]"

text \<open>
  The two transition types, spelled as the code spells them, and the dict \<open>tmap\<close> (of
  two equal keys the later one would win).
\<close>

definition activation :: string where
  "activation = ''error_activation''"

definition recovery :: string where
  "recovery = ''error_recovery''"

definition tmap :: "string \<Rightarrow> string \<Rightarrow> string option" where
  "tmap prefix lbl =
     (if lbl = prefix @ '' True->False'' then Some recovery
      else if lbl = prefix @ '' False->True'' then Some activation
      else None)"

text \<open>
  The body of the \<open>try\<close> for one rule. The result is the store, the warnings issued, and
  either the exception raised (\<open>Inl\<close>), \<open>None\<close> for \<open>continue\<close>, or the object to
  append: the events with their transition types, ready to be tagged with the subsystem.
\<close>

type_synonym try_result =
  "heap \<times> diag list \<times> (py_error + (event \<times> string) appended option)"

definition eval_derived ::
  "externals \<Rightarrow> heap \<Rightarrow> nat \<Rightarrow> entry \<Rightarrow> string \<times> string \<times> real \<Rightarrow> try_result" where
  "eval_derived ext h df en dc =
     (case dc of (col, opr, v) \<Rightarrow>
        if col \<notin> set (columns (h ! df))
        then (case e_args en of
                None \<Rightarrow> (h, [], Inl KeyError)
              | Some a \<Rightarrow> (h, [ColumnNotFound col (get_default (a_event_name_prefix a) ''?'')],
                           Inr None))
        else (case ops opr of
                None \<Rightarrow> (h, [], Inl KeyError)
              | Some f \<Rightarrow>
                 (case getitem (h ! df) col of
                    Inl e \<Rightarrow> (h, [], Inl e)
                  | Inr s \<Rightarrow>
                     (let derived = BoolS (compare_series f s v);
                          h1 = fst (copy_frame h df);
                          entry_df = snd (copy_frame h df)
                      in (case e_args en of
                            None \<Rightarrow> (h1, [], Inl KeyError)
                          | Some a \<Rightarrow>
                             (case a_event_name_prefix a of
                                None \<Rightarrow> (h1, [], Inl KeyError)
                              | Some prefix \<Rightarrow>
                                 (let temp_col = ''_derived_'' @ prefix;
                                      h2 = setitem h1 entry_df temp_col derived;
                                      args' = a\<lparr>a_column := Some temp_col\<rparr>
                                  in (case e_method en of
                                        None \<Rightarrow> (h2, [], Inl KeyError)
                                      | Some m \<Rightarrow>
                                         (case call_method ext (h2 ! entry_df) m args' of
                                            Inl e \<Rightarrow> (h2, [], Inl e)
                                          | Inr events \<Rightarrow>
                                              (h2, [], Inr (Some (EventFrame
                                                 (frame_dtype (h2 ! entry_df) m args' events)
                                                 (List.map_filter
                                                    (\<lambda>ev. map_option (\<lambda>t. (ev, t))
                                                             (tmap prefix (activity ev)))
                                                    events)))))))))))))"

definition eval_simple ::
  "externals \<Rightarrow> heap \<Rightarrow> nat \<Rightarrow> wavelet_denoiser option \<Rightarrow> entry \<Rightarrow> try_result" where
  "eval_simple ext h df wd en =
     (case e_args en of
        None \<Rightarrow> (h, [], Inl KeyError)
      | Some a \<Rightarrow>
         (let missing = filter (\<lambda>c. c \<notin> set (columns (h ! df)))
                          (map fst (get_default (a_conditions a) []))
          in if a_conditions a \<noteq> None \<and> missing \<noteq> []
             then (h, [ColumnsNotFound missing (get_default (a_event_name a) ''?'')], Inr None)
             else if a_conditions a = None \<and> a_column a \<noteq> None
                     \<and> the (a_column a) \<notin> set (columns (h ! df))
             then (h, [ColumnNotFound (the (a_column a)) (get_default (a_event_name a) ''?'')],
                   Inr None)
             else (case e_method en of
                     None \<Rightarrow> (h, [], Inl KeyError)
                   | Some m \<Rightarrow>
                      (let called = (case wd of
                                       None \<Rightarrow> ([], call_ec ext (h ! df) m a)
                                     | Some w \<Rightarrow>
                                         if wd_hasattr m then call_wd w (h ! wd_df w) m a
                                         else ([], call_ec ext (h ! df) m a))
                       in (case snd called of
                             Inl e \<Rightarrow> (h, fst called, Inl e)
                           | Inr events \<Rightarrow>
                              (case e_transition_type en of
                                 None \<Rightarrow> (h, fst called, Inl KeyError)
                               | Some t \<Rightarrow>
                                   (h, fst called,
                                    Inr (Some (map_appended (\<lambda>ev. (ev, t)) events)))))))))"

definition try_body ::
  "externals \<Rightarrow> heap \<Rightarrow> nat \<Rightarrow> wavelet_denoiser option \<Rightarrow> entry \<Rightarrow> try_result" where
  "try_body ext h df wd en =
     (case e_derived_column en of
        Some dc \<Rightarrow> eval_derived ext h df en dc
      | None \<Rightarrow> eval_simple ext h df wd en)"

definition tag :: "string \<Rightarrow> event \<times> string \<Rightarrow> tagged_event" where
  "tag sub et = \<lparr>timestamp = timestamp (fst et), activity = activity (fst et),
                  val = val (fst et), transition_type = snd et, subsystem = sub\<rparr>"

text \<open>
  The loop over the rules. \<open>entry["subsystem"]\<close> is read before the \<open>try\<close>: its KeyError
  leaves the dispatcher. An exception inside the \<open>try\<close> becomes a warning.
\<close>

record dispatcher_state =
  st_heap :: heap
  st_warnings :: "diag list"
  st_frames :: "tagged_event appended list"

fun dispatch_loop ::
  "externals \<Rightarrow> nat \<Rightarrow> wavelet_denoiser option \<Rightarrow> entry list \<Rightarrow> dispatcher_state
     \<Rightarrow> dispatcher_state \<times> py_error option" where
  "dispatch_loop ext df wd [] st = (st, None)"
| "dispatch_loop ext df wd (en # config) st =
     (case e_subsystem en of
        None \<Rightarrow> (st, Some KeyError)
      | Some sub \<Rightarrow>
         (case try_body ext (st_heap st) df wd en of (h, ws, r) \<Rightarrow>
            (case r of
               Inl exc \<Rightarrow>
                 dispatch_loop ext df wd config
                   (st\<lparr>st_heap := h,
                       st_warnings := st_warnings st @ ws
                         @ [ProcessingError sub (get_default (e_args en) empty_args) exc]\<rparr>)
             | Inr None \<Rightarrow>
                 dispatch_loop ext df wd config
                   (st\<lparr>st_heap := h, st_warnings := st_warnings st @ ws\<rparr>)
             | Inr (Some events) \<Rightarrow>
                 dispatch_loop ext df wd config
                   (st\<lparr>st_heap := h, st_warnings := st_warnings st @ ws,
                       st_frames := st_frames st @ [map_appended (tag sub) events]\<rparr>))))"

text \<open>
  \<open>pd.concat(frames, ignore_index=True).sort_values("timestamp")\<close>: event frames whose
  value columns have one dtype are put one after the other, unchanged, and the rows are
  sorted. Any other list is left to the library parameter.
\<close>

definition plain :: "'r appended list \<Rightarrow> bool" where
  "plain fs = (case fs of
                 [] \<Rightarrow> True
               | f # gs \<Rightarrow> dtype_of f \<noteq> None \<and> list_all (\<lambda>g. dtype_of g = dtype_of f) gs)"

text \<open>
  \<open>dispatch_ship_events(df, config, wd)\<close> on the store \<open>h\<close>, with \<open>df\<close> the address of
  the caller's table: the final store, the warnings, and the log or the exception that
  escaped.
\<close>

definition dispatch_ship_events ::
  "externals \<Rightarrow> heap \<Rightarrow> nat \<Rightarrow> entry list \<Rightarrow> wavelet_denoiser option
     \<Rightarrow> heap \<times> diag list \<times> (py_error + tagged_event list)" where
  "dispatch_ship_events ext h df config wd =
     (case dispatch_loop ext df wd config \<lparr>st_heap = h, st_warnings = [], st_frames = []\<rparr> of
        (st, Some exc) \<Rightarrow> (st_heap st, st_warnings st, Inl exc)
      | (st, None) \<Rightarrow>
          (st_heap st, st_warnings st,
           if st_frames st = [] then Inr []
           else if plain (st_frames st)
           then Inr (sort_values (argsort ext) timestamp (concat (map rows_of (st_frames st))))
           else concat_frames ext (st_frames st)))"

text \<open>
  The number of value changes of a channel, ignoring missing values: the rows whose value
  and whose predecessor's value are both present and differ.
\<close>

definition value_changes :: "cell list \<Rightarrow> nat" where
  "value_changes cs =
     length (filter (\<lambda>i. \<not> isna (cs ! i) \<and> \<not> isna (cs ! (i - 1))
                          \<and> cell_value (cs ! i) \<noteq> cell_value (cs ! (i - 1))) [1..<length cs])"

text \<open>The rows at which a boolean channel differs from its predecessor.\<close>

definition flips :: "bool list \<Rightarrow> nat list" where
  "flips bs = filter (\<lambda>i. bs ! i \<noteq> bs ! (i - 1)) [1..<length bs]"

section \<open>What the specification expects\<close>

text \<open>
  The record the specification expects of a derived-state rule for a flip of its
  condition at row \<open>i\<close>: an activation labelled \<open>False->True\<close> where the condition
  becomes true, a recovery labelled \<open>True->False\<close> where it becomes false.
\<close>

definition pairing_record :: "series \<Rightarrow> string \<Rightarrow> string \<Rightarrow> bool list \<Rightarrow> nat \<Rightarrow> tagged_event" where
  "pairing_record ts prefix sub bs i =
     \<lparr>timestamp = cells ts ! i,
      activity = prefix @ (if bs ! i then '' False->True'' else '' True->False''),
      val = BoolV (bs ! i),
      transition_type = (if bs ! i then activation else recovery),
      subsystem = sub\<rparr>"

text \<open>
  A condition \<open>(column, operator, threshold)\<close> holds at row \<open>i\<close> of a table. The
  conditions of a rule are well formed for a table of \<open>n\<close> rows when each names a known
  operator and a column of the table. \<open>any_edges\<close> are the rows where the logical OR of
  the conditions becomes true: some condition holds there, and none at the row before.
\<close>

definition condition_holds :: "frame \<Rightarrow> string \<times> string \<times> real \<Rightarrow> nat \<Rightarrow> bool" where
  "condition_holds df c i =
     (case c of (col, opr, thr) \<Rightarrow>
        (case ops opr of
           None \<Rightarrow> False
         | Some f \<Rightarrow> (case getitem df col of
                        Inl e \<Rightarrow> False
                      | Inr s \<Rightarrow> compare_series f s thr ! i)))"

definition well_formed :: "frame \<Rightarrow> nat \<Rightarrow> (string \<times> string \<times> real) list \<Rightarrow> bool" where
  "well_formed df n conds =
     list_all (\<lambda>c. case c of (col, opr, thr) \<Rightarrow>
                 ops opr \<noteq> None \<and> (case getitem df col of
                                       Inl e \<Rightarrow> False
                                     | Inr s \<Rightarrow> length (cells s) = n)) conds"

definition any_edges :: "frame \<Rightarrow> nat \<Rightarrow> (string \<times> string \<times> real) list \<Rightarrow> nat list" where
  "any_edges df n conds =
     filter (\<lambda>i. list_ex (\<lambda>c. condition_holds df c i) conds
                \<and> (i = 0 \<or> \<not> list_ex (\<lambda>c. condition_holds df c (i - 1)) conds)) [0..<n]"

section \<open>Example inputs\<close>

text \<open>A channel \<open>x = [0, 10, 0]\<close> at timestamps 0, 1, 2: one sample above 5.\<close>

definition table_spike :: frame where
  "table_spike = [(''time.absolute'', FloatS [Some 0, Some 1, Some 2]),
                  (''x'', FloatS [Some 0, Some 10, Some 0])]"

text \<open>
  The end-to-end scenario: \<open>oil_psi = [30, 30, 30, 4, 4, 30]\<close> at timestamps 0..5, and
  the derived-state rule on \<open>oil_psi < 5\<close> with label prefix \<open>low_oil\<close>.
\<close>

definition table_oil :: frame where
  "table_oil = [(''time.absolute'', FloatS [Some 0, Some 1, Some 2, Some 3, Some 4, Some 5]),
                (''oil_psi'', FloatS [Some 30, Some 30, Some 30, Some 4, Some 4, Some 30])]"

definition rule_low_oil :: entry where
  "rule_low_oil = \<lparr>e_subsystem = Some ''Lubrication'',
     e_method = Some ''detect_state_change_events'',
     e_derived_column = Some (''oil_psi'', ''<'', 5),
     e_transition_type = None,
     e_args = Some (empty_args\<lparr>a_event_name_prefix := Some ''low_oil''\<rparr>)\<rparr>"

text \<open>
  Library parameters for the examples: a stable sort, a peak finder that finds none, and
  a concatenation that refuses what is not plain.
\<close>

definition example_externals :: externals where
  "example_externals = \<lparr>argsort = stable_argsort, find_peaks = (\<lambda>vals window prom. Inr []),
     concat_frames = (\<lambda>fs. Inl TypeError)\<rparr>"

text \<open>The same rule without its \<open>subsystem\<close> field.\<close>

definition rule_no_subsystem :: entry where
  "rule_no_subsystem = \<lparr>e_subsystem = None,
     e_method = Some ''detect_state_change_events'',
     e_derived_column = Some (''oil_psi'', ''<'', 5),
     e_transition_type = None,
     e_args = Some (empty_args\<lparr>a_event_name_prefix := Some ''low_oil''\<rparr>)\<rparr>"

text \<open>
  Two channels whose conditions \<open>a > 0\<close> and \<open>b > 0\<close> never hold together, and a
  combined-condition rule on them with a given combine mode.
\<close>

definition table_two :: frame where
  "table_two = [(''time.absolute'', FloatS [Some 0, Some 1, Some 2]),
                (''a'', FloatS [Some 0, Some 1, Some 0]),
                (''b'', FloatS [Some 0, Some 0, Some 1])]"

definition rule_combined :: "string \<Rightarrow> entry" where
  "rule_combined mode = \<lparr>e_subsystem = Some ''Brakes'',
     e_method = Some ''detect_combined_condition_events'',
     e_derived_column = None,
     e_transition_type = Some ''error_activation'',
     e_args = Some (empty_args\<lparr>a_conditions := Some [(''a'', ''>'', 0), (''b'', ''>'', 0)],
                                a_event_name := Some ''either'', a_mode := Some mode\<rparr>)\<rparr>"




section \<open>Facts about the primitives\<close>

lemma length_shift_back: "length (shift_back i m) = length m"
  by (simp add: shift_back_def)

lemma length_duration_check: "length (duration_check m d) = length m"
  by (induction d) (simp_all add: duration_check_def length_shift_back)

lemma duration_check_Suc:
  "duration_check m (Suc d) = map2 (\<lambda>a b. a \<or> b) (duration_check m d) (shift_back d m)"
  by (simp add: duration_check_def)

lemma duration_check_covers:
  "0 < d \<Longrightarrow> i < length m \<Longrightarrow> m ! i \<Longrightarrow> duration_check m d ! i"
proof (induction d)
  case 0
  then show ?case by simp
next
  case (Suc d)
  show ?case
  proof (cases "d = 0")
    case True
    with Suc.prems show ?thesis
      by (simp add: duration_check_def shift_back_def)
  next
    case False
    with Suc show ?thesis
      by (simp add: duration_check_Suc length_duration_check length_shift_back)
  qed
qed

lemma length_shift_fill: "length (shift_fill m) = length m"
  by (simp add: shift_fill_def)

lemma length_rising_edge: "length (rising_edge m) = length m"
  by (simp add: rising_edge_def length_shift_fill)

lemma rising_edge_mask: "i < length m \<Longrightarrow> rising_edge m ! i \<Longrightarrow> m ! i"
  by (simp add: rising_edge_def length_shift_fill)

text \<open>
  The look-ahead window is an OR that starts with the mask itself, so it is true wherever
  the mask is: and-ing it onto the rising edges removes none of them.
\<close>

lemma duration_check_no_effect:
  "0 < d \<Longrightarrow> map2 (\<lambda>a b. a \<and> b) (rising_edge m) (duration_check m d) = rising_edge m"
  by (rule nth_equalityI)
     (auto simp: length_rising_edge length_duration_check
           dest: rising_edge_mask duration_check_covers)

lemma min_duration_ignored:
  "detect_threshold_events df col thr cond ev_name d
     = detect_threshold_events df col thr cond ev_name 1"
proof (cases "1 < d")
  case True
  then have "0 < nat d" by simp
  then have "map2 (\<lambda>a b. a \<and> b) (rising_edge m) (duration_check m (nat d)) = rising_edge m" for m
    by (rule duration_check_no_effect)
  with True show ?thesis
    by (simp add: detect_threshold_events_def Let_def split: option.splits sum.splits)
next
  case False
  then show ?thesis
    by (simp add: detect_threshold_events_def Let_def split: option.splits sum.splits)
qed

lemma combine_not_all: "mode \<noteq> ''all'' \<Longrightarrow> combine mode ms = combine ''any'' ms"
  by (simp add: combine_def)

lemma combined_not_all:
  "mode \<noteq> ''all'' \<Longrightarrow>
   detect_combined_condition_events df conds ev_name mode
     = detect_combined_condition_events df conds ev_name ''any''"
  using combine_not_all [of mode]
  by (simp add: detect_combined_condition_events_def split: sum.splits)

lemma length_shift_na: "length (shift_na cs) = length cs"
  by (simp add: shift_na_def)

lemma shift_na_nth:
  "i < length cs \<Longrightarrow> shift_na cs ! i = (if i = 0 then FloatV None else cs ! (i - 1))"
  by (cases i) (auto simp: shift_na_def nth_butlast)

lemma length_changed: "length (changed ign cs) = length cs"
  by (simp add: changed_def length_shift_na)

lemma changed_nth:
  "i < length cs \<Longrightarrow> changed ign cs ! i =
     (if ign then cell_ne (cs ! i) (shift_na cs ! i) \<and> \<not> isna (cs ! i) \<and> \<not> isna (shift_na cs ! i)
      else cell_ne (cs ! i) (shift_na cs ! i))"
  by (simp add: changed_def length_shift_na)

text \<open>
  With \<open>ignore_nan\<close>, row 0 is never an event (its predecessor is the NaN of the shift);
  without it, row 0 always is.
\<close>

lemma event_indices_changed_ignore:
  "event_indices (changed True cs) =
     filter (\<lambda>i. \<not> isna (cs ! i) \<and> \<not> isna (cs ! (i - 1))
                   \<and> cell_value (cs ! i) \<noteq> cell_value (cs ! (i - 1))) [1..<length cs]"
proof (cases "cs = []")
  case True
  then show ?thesis by (simp add: event_indices_def changed_def shift_na_def)
next
  case False
  then have n: "0 < length cs" by simp
  then have upt: "[0..<length cs] = 0 # [1..<length cs]"
    by (simp add: upt_conv_Cons)
  have zero: "\<not> changed True cs ! 0"
    using n by (simp add: changed_nth shift_na_nth)
  have rest: "filter (\<lambda>i. changed True cs ! i) [1..<length cs] =
      filter (\<lambda>i. \<not> isna (cs ! i) \<and> \<not> isna (cs ! (i - 1))
                   \<and> cell_value (cs ! i) \<noteq> cell_value (cs ! (i - 1))) [1..<length cs]"
    by (rule filter_cong) (auto simp: changed_nth shift_na_nth cell_ne_def)
  show ?thesis
    using zero rest by (simp add: event_indices_def length_changed upt)
qed

lemma event_indices_changed_all:
  assumes "cs \<noteq> []"
  shows "event_indices (changed False cs) =
     0 # filter (\<lambda>i. cell_ne (cs ! i) (cs ! (i - 1))) [1..<length cs]"
proof -
  from assms have n: "0 < length cs" by simp
  then have upt: "[0..<length cs] = 0 # [1..<length cs]"
    by (simp add: upt_conv_Cons)
  have zero: "changed False cs ! 0"
    using n by (simp add: changed_nth shift_na_nth cell_ne_def)
  have rest: "filter (\<lambda>i. changed False cs ! i) [1..<length cs] =
      filter (\<lambda>i. cell_ne (cs ! i) (cs ! (i - 1))) [1..<length cs]"
    by (rule filter_cong) (auto simp: changed_nth shift_na_nth)
  show ?thesis
    using zero rest by (simp add: event_indices_def length_changed upt)
qed

lemma start_label_distinct:
  "i \<noteq> 0 \<Longrightarrow> label prefix b cs i \<noteq> prefix @ '' Start''"
proof
  assume "i \<noteq> 0" and eq: "label prefix b cs i = prefix @ '' Start''"
  then have "show_cell b (shift_na cs ! i) @ ''->'' @ show_cell b (cs ! i) = ''Start''"
    by (simp add: label_def)
  then have "CHR ''-'' \<in> set ''Start''"
    by (metis in_set_conv_decomp append_Cons)
  then show False by simp
qed

lemmas eval_primitives =
  detect_threshold_events_def detect_state_change_events_def
  detect_combined_condition_events_def combine_def ops_def getitem_def rising_edge_def
  shift_fill_def shift_back_def duration_check_def event_indices_def changed_def
  shift_na_def cell_ne_def label_def fmt0_def round_half_even_def upt_conv_Cons

section \<open>Facts about sorting\<close>

lemma argsort_ok_lt: "argsort_ok srt \<Longrightarrow> i \<in> set (srt ks) \<Longrightarrow> i < length ks"
proof -
  assume a: "argsort_ok srt" and i: "i \<in> set (srt ks)"
  from a have "mset (srt ks) = mset [0..<length ks]" by (simp add: argsort_ok_def)
  then have "set (srt ks) = set [0..<length ks]" by (rule mset_eq_setD)
  with i show ?thesis by simp
qed

lemma mset_sort_values:
  assumes "argsort_ok srt"
  shows "mset (sort_values srt ts rows) = mset rows"
proof -
  let ?ks = "map (\<lambda>r. ts_key (ts r)) rows"
  from assms have "mset (srt ?ks) = mset [0..<length rows]"
    by (simp add: argsort_ok_def)
  then have "image_mset (\<lambda>i. rows ! i) (mset (srt ?ks)) = image_mset (\<lambda>i. rows ! i) (mset [0..<length rows])"
    by simp
  then have "mset (map (\<lambda>i. rows ! i) (srt ?ks)) = mset (map (\<lambda>i. rows ! i) [0..<length rows])"
    by simp
  then show ?thesis
    by (simp add: sort_values_def map_nth)
qed

lemma sorted_sort_values:
  assumes "argsort_ok srt"
  shows "sorted (map (\<lambda>r. ts_key (ts r)) (sort_values srt ts rows))"
proof -
  let ?ks = "map (\<lambda>r. ts_key (ts r)) rows"
  have "map (\<lambda>r. ts_key (ts r)) (sort_values srt ts rows) = map (\<lambda>i. ?ks ! i) (srt ?ks)"
    using argsort_ok_lt [OF assms, of _ ?ks] by (simp add: sort_values_def)
  moreover from assms have "sorted (map (\<lambda>i. ?ks ! i) (srt ?ks))"
    by (simp add: argsort_ok_def)
  ultimately show ?thesis by simp
qed

lemma sort_values_distinct_sorted:
  assumes ok: "argsort_ok srt"
    and s: "sorted (map (\<lambda>r. ts_key (ts r)) rows)"
    and d: "distinct (map (\<lambda>r. ts_key (ts r)) rows)"
  shows "sort_values srt ts rows = rows"
proof -
  let ?ks = "map (\<lambda>r. ts_key (ts r)) rows"
  let ?is = "srt ?ks"
  have ms: "mset ?is = mset [0..<length ?ks]" and so: "sorted (map (\<lambda>i. ?ks ! i) ?is)"
    using ok by (simp_all add: argsort_ok_def)
  have "mset (map (\<lambda>i. ?ks ! i) ?is) = mset (map (\<lambda>i. ?ks ! i) [0..<length ?ks])"
    using ms by (metis mset_map)
  then have "mset (map (\<lambda>i. ?ks ! i) ?is) = mset ?ks"
    by (simp only: map_nth)
  with so s have eq: "map (\<lambda>i. ?ks ! i) ?is = ?ks"
    by (metis properties_for_sort)
  have inj: "inj_on (\<lambda>i. ?ks ! i) (set ?is \<union> set [0..<length ?ks])"
  proof -
    have "set ?is = set [0..<length ?ks]" using ms by (rule mset_eq_setD)
    moreover have "inj_on (\<lambda>i. ?ks ! i) {0..<length ?ks}"
      using d by (auto simp: inj_on_def nth_eq_iff_index_eq simp del: length_map)
    ultimately show ?thesis by simp
  qed
  have "map (\<lambda>i. ?ks ! i) ?is = map (\<lambda>i. ?ks ! i) [0..<length ?ks]"
    using eq by (simp only: map_nth)
  with inj have "?is = [0..<length ?ks]"
    by (rule inj_on_map_eq_map [THEN iffD1])
  then show ?thesis
    by (simp add: sort_values_def map_nth)
qed

lemma zip_upt_nth: "(k, i) \<in> set (zip ks [0..<length ks]) \<Longrightarrow> ks ! i = k"
  by (auto simp: set_zip)

lemma argsort_ok_stable: "argsort_ok stable_argsort"
  unfolding argsort_ok_def
proof (intro allI conjI)
  fix ks :: "(bool \<times> real) list"
  let ?z = "zip ks [0..<length ks]"
  have "mset (map snd (sort_key fst ?z)) = mset (map snd ?z)"
    by (simp only: mset_map mset_sort)
  then show "mset (stable_argsort ks) = mset [0..<length ks]"
    by (simp only: stable_argsort_def map_snd_zip length_upt diff_zero)
  have "map (\<lambda>i. ks ! i) (stable_argsort ks) = map fst (sort_key fst ?z)"
    by (auto simp: stable_argsort_def dest: zip_upt_nth)
  then show "sorted (map (\<lambda>i. ks ! i) (stable_argsort ks))"
    by simp
qed

section \<open>Facts about the dispatcher\<close>

lemmas eval_dispatch =
  try_body_def eval_derived_def eval_simple_def call_method_def call_ec_def call_wd_def
  frame_dtype_def keys_def key_def
  empty_args_def get_default_def copy_frame_def setitem_def tmap_def tag_def columns_def
  List.map_filter_def activation_def recovery_def wd_hasattr_def

lemma loop_oil:
  "dispatch_loop ext 0 wd [rule_low_oil] \<lparr>st_heap = [table_oil], st_warnings = [], st_frames = []\<rparr>
   = (\<lparr>st_heap = [table_oil, table_oil @ [(''_derived_low_oil'', BoolS [False, False, False, True, True, False])]],
       st_warnings = [],
       st_frames = [EventFrame DBool [
         \<lparr>timestamp = FloatV (Some 3), activity = ''low_oil False->True'', val = BoolV True,
           transition_type = ''error_activation'', subsystem = ''Lubrication''\<rparr>,
         \<lparr>timestamp = FloatV (Some 5), activity = ''low_oil True->False'', val = BoolV False,
           transition_type = ''error_recovery'', subsystem = ''Lubrication''\<rparr>]]\<rparr>, None)"
  by (simp add: rule_low_oil_def table_oil_def eval_dispatch eval_primitives getitem_def)

lemma map_of_set_column: "map_of (set_column k s df) k = Some s"
  by (induction df) auto

lemma getitem_set_column: "getitem (set_column k s df) k = Inr s"
  by (simp add: getitem_def map_of_set_column)

lemma tmap_start: "tmap prefix (prefix @ '' Start'') = None"
  by (simp add: tmap_def)

lemma tmap_bool_label:
  "i \<noteq> 0 \<Longrightarrow> i < length bs \<Longrightarrow> bs ! i \<noteq> bs ! (i - 1) \<Longrightarrow>
   tmap prefix (label prefix True (map BoolV bs) i) = Some (if bs ! i then activation else recovery)"
  by (auto simp: tmap_def label_def shift_na_nth)

lemma bool_changes_ignore:
  "event_indices (changed True (map BoolV bs)) = flips bs"
proof -
  have "filter (\<lambda>i. \<not> isna (map BoolV bs ! i) \<and> \<not> isna (map BoolV bs ! (i - 1))
                   \<and> cell_value (map BoolV bs ! i) \<noteq> cell_value (map BoolV bs ! (i - 1))) [1..<length bs]
      = filter (\<lambda>i. bs ! i \<noteq> bs ! (i - 1)) [1..<length bs]"
    by (rule filter_cong) (auto split: if_splits)
  then show ?thesis
    by (simp add: event_indices_changed_ignore flips_def)
qed

lemma bool_changes_all:
  assumes "bs \<noteq> []"
  shows "event_indices (changed False (map BoolV bs)) = 0 # flips bs"
proof -
  have "filter (\<lambda>i. cell_ne (map BoolV bs ! i) (map BoolV bs ! (i - 1))) [1..<length bs]
      = filter (\<lambda>i. bs ! i \<noteq> bs ! (i - 1)) [1..<length bs]"
    by (rule filter_cong) (auto simp: cell_ne_def split: if_splits)
  then show ?thesis
    using assms by (simp add: event_indices_changed_all flips_def)
qed

lemma flips_props: "i \<in> set (flips bs) \<Longrightarrow> i \<noteq> 0 \<and> i < length bs \<and> bs ! i \<noteq> bs ! (i - 1)"
  by (auto simp: flips_def)

lemma map_filter_map: "List.map_filter g (map f xs) = List.map_filter (\<lambda>x. g (f x)) xs"
  by (induction xs) (simp_all add: List.map_filter_def)

lemma map_filter_all_Some:
  "(\<And>x. x \<in> set xs \<Longrightarrow> g x = Some (f x)) \<Longrightarrow> List.map_filter g xs = map f xs"
  by (induction xs) (simp_all add: List.map_filter_def)

lemma state_change_bool_tagged:
  assumes col: "getitem df col = Inr (BoolS bs)"
    and run: "detect_state_change_events df col prefix ign = Inr evs"
  shows "\<exists>ts. (flips bs \<noteq> [] \<longrightarrow> getitem df ''time.absolute'' = Inr ts)
     \<and> List.map_filter (\<lambda>ev. map_option (\<lambda>t. (ev, t)) (tmap prefix (activity ev))) evs
     = map (\<lambda>i. (\<lparr>timestamp = cells ts ! i, activity = label prefix True (map BoolV bs) i,
                    val = BoolV (bs ! i)\<rparr>,
                   if bs ! i then activation else recovery)) (flips bs)"
proof (cases "event_indices (changed ign (map BoolV bs)) = []")
  case True
  with col run have "evs = []"
    by (simp add: detect_state_change_events_def Let_def)
  moreover from True have "flips bs = []"
    by (cases ign; cases "bs = []") (simp_all add: bool_changes_ignore bool_changes_all flips_def)
  ultimately show ?thesis
    by (simp add: List.map_filter_def)
next
  case False
  with col run obtain ts where ts: "getitem df ''time.absolute'' = Inr ts"
    by (auto simp: detect_state_change_events_def Let_def split: sum.splits)
  let ?mk = "\<lambda>i. \<lparr>timestamp = cells ts ! i, activity = label prefix True (map BoolV bs) i,
                    val = BoolV (bs ! i)\<rparr>"
  let ?g = "\<lambda>ev. map_option (\<lambda>t. (ev, t)) (tmap prefix (activity ev))"
  have evs: "evs = map (\<lambda>i. \<lparr>timestamp = cells ts ! i, activity = label prefix True (map BoolV bs) i,
                    val = map BoolV bs ! i\<rparr>) (event_indices (changed ign (map BoolV bs)))"
    using col run ts False by (simp add: detect_state_change_events_def Let_def)
  have fl: "List.map_filter ?g (map ?mk (flips bs))
      = map (\<lambda>i. (?mk i, if bs ! i then activation else recovery)) (flips bs)"
    unfolding map_filter_map
    by (rule map_filter_all_Some) (use flips_props tmap_bool_label in auto)
  have same: "map (\<lambda>i. \<lparr>timestamp = cells ts ! i, activity = label prefix True (map BoolV bs) i,
                    val = map BoolV bs ! i\<rparr>) (flips bs) = map ?mk (flips bs)"
    by (rule map_cong) (use flips_props in auto)
  have "List.map_filter ?g evs = List.map_filter ?g (map ?mk (flips bs))"
  proof (cases ign)
    case True
    with evs have "evs = map ?mk (flips bs)"
      by (simp only: bool_changes_ignore same)
    then show ?thesis by (simp only:)
  next
    case f: False
    from False have ne: "bs \<noteq> []"
      by (auto simp: event_indices_def changed_def shift_na_def)
    from evs f have "evs = \<lparr>timestamp = cells ts ! 0,
          activity = label prefix True (map BoolV bs) 0, val = map BoolV bs ! 0\<rparr>
        # map ?mk (flips bs)"
      by (simp only: bool_changes_all [OF ne] same list.map)
    moreover have "tmap prefix (label prefix True (map BoolV bs) 0) = None"
      by (simp add: label_def tmap_start)
    ultimately show ?thesis
      by (simp add: List.map_filter_def)
  qed
  then have "List.map_filter ?g evs
      = map (\<lambda>i. (?mk i, if bs ! i then activation else recovery)) (flips bs)"
    using fl by (rule trans)
  with ts show ?thesis by blast
qed

lemma flips_balance:
  "bs \<noteq> [] \<Longrightarrow>
   int (length (filter (\<lambda>i. bs ! i) (flips bs))) - int (length (filter (\<lambda>i. \<not> bs ! i) (flips bs)))
     = (if last bs then 1 else 0) - (if hd bs then 1 else 0)"
proof (induction bs rule: rev_induct)
  case Nil
  then show ?case by simp
next
  case (snoc b bs)
  show ?case
  proof (cases "bs = []")
    case True
    then show ?thesis by (simp add: flips_def)
  next
    case False
    then have n: "1 \<le> length bs" by (cases bs) simp_all
    have pre: "filter (\<lambda>i. (bs @ [b]) ! i \<noteq> (bs @ [b]) ! (i - 1)) [1..<length bs] = flips bs"
      unfolding flips_def by (rule filter_cong) (auto simp: nth_append)
    have "flips (bs @ [b]) = flips bs @ (if b \<noteq> last bs then [length bs] else [])"
      using n False pre by (simp add: flips_def nth_append last_conv_nth)
    moreover have "filter (\<lambda>i. (bs @ [b]) ! i) (flips bs) = filter (\<lambda>i. bs ! i) (flips bs)"
      by (rule filter_cong) (use flips_props in \<open>auto simp: nth_append\<close>)
    moreover have "filter (\<lambda>i. \<not> (bs @ [b]) ! i) (flips bs) = filter (\<lambda>i. \<not> bs ! i) (flips bs)"
      by (rule filter_cong) (use flips_props in \<open>auto simp: nth_append\<close>)
    ultimately show ?thesis
      using snoc.IH [OF False] False by auto
  qed
qed

lemma bool_label:
  "i \<noteq> 0 \<Longrightarrow> i < length bs \<Longrightarrow> bs ! i \<noteq> bs ! (i - 1) \<Longrightarrow>
   label prefix True (map BoolV bs) i
     = prefix @ (if bs ! i then '' False->True'' else '' True->False'')"
  by (auto simp: label_def shift_na_nth)

lemma activation_neq_recovery: "activation \<noteq> recovery"
  by (simp add: activation_def recovery_def)

lemma call_method_with_prefix:
  assumes "a_event_name_prefix a = Some prefix" and "call_method ext df m a = Inr evs"
  shows "m = ''detect_state_change_events'' \<and> a_column a \<noteq> None
     \<and> detect_state_change_events df (the (a_column a)) prefix (get_default (a_ignore_nan a) True) = Inr evs"
proof -
  from assms(1) have k: "''event_name_prefix'' \<in> set (keys a)"
    by (simp add: keys_def key_def)
  show ?thesis
    using assms k by (auto simp: call_method_def split: if_splits)
qed

lemma eval_simple_heap: "fst (eval_simple ext h df wd en) = h"
  by (simp add: eval_simple_def Let_def split: option.splits sum.splits)

lemma eval_derived_heap: "take (length h) (fst (eval_derived ext h df en dc)) = h"
  by (simp add: eval_derived_def Let_def copy_frame_def setitem_def
           split: option.splits sum.splits prod.splits)

lemma try_body_heap:
  "\<exists>fs. fst (try_body ext h df wd en) = h @ fs"
proof -
  have "take (length h) (fst (try_body ext h df wd en)) = h"
    by (simp add: try_body_def eval_simple_heap eval_derived_heap split: option.splits)
  then have "fst (try_body ext h df wd en) = h @ drop (length h) (fst (try_body ext h df wd en))"
    by (metis append_take_drop_id)
  then show ?thesis ..
qed

lemma dispatch_loop_heap:
  "\<exists>fs. st_heap (fst (dispatch_loop ext df wd config st)) = st_heap st @ fs"
proof (induction config arbitrary: st)
  case Nil
  then show ?case by simp
next
  case (Cons en config)
  show ?case
  proof (cases "e_subsystem en")
    case None
    then show ?thesis by simp
  next
    case (Some sub)
    obtain h ws r where tb: "try_body ext (st_heap st) df wd en = (h, ws, r)"
      by (cases "try_body ext (st_heap st) df wd en") auto
    from try_body_heap [of ext "st_heap st" df wd en] tb
    obtain fs where h: "h = st_heap st @ fs" by auto
    show ?thesis
    proof (cases r)
      case (Inl exc)
      from Cons.IH [of "st\<lparr>st_heap := h, st_warnings := st_warnings st @ ws
             @ [ProcessingError sub (get_default (e_args en) empty_args) exc]\<rparr>"]
      show ?thesis using Some tb Inl h by auto
    next
      case (Inr res)
      show ?thesis
      proof (cases res)
        case None
        from Cons.IH [of "st\<lparr>st_heap := h, st_warnings := st_warnings st @ ws\<rparr>"]
        show ?thesis using Some tb Inr None h by auto
      next
        case (Some events)
        from Cons.IH [of "st\<lparr>st_heap := h, st_warnings := st_warnings st @ ws,
                       st_frames := st_frames st @ [map_appended (tag sub) events]\<rparr>"]
        show ?thesis using \<open>e_subsystem en = Some sub\<close> tb Inr Some h by auto
      qed
    qed
  qed
qed

text \<open>
  Reading \<open>subsystem\<close> is the only step of the loop outside the \<open>try\<close>: when every
  rule has the field, no exception leaves the loop.
\<close>

lemma dispatch_loop_no_escape:
  "\<forall>en \<in> set config. e_subsystem en \<noteq> None \<Longrightarrow>
   snd (dispatch_loop ext df wd config st) = None"
  by (induction config arbitrary: st) (auto split: prod.splits sum.splits option.splits)

text \<open>The per-rule copy, and what a derived-state rule appends.\<close>

lemma getitem_columns: "getitem df c = Inr s \<Longrightarrow> c \<in> set (columns df)"
  by (auto simp: getitem_def columns_def split: option.splits dest: map_of_SomeD intro: rev_image_eqI)

lemma map_of_set_column_other: "k \<noteq> c \<Longrightarrow> map_of (set_column k s df) c = map_of df c"
  by (induction df) auto

lemma getitem_set_column_other: "k \<noteq> c \<Longrightarrow> getitem (set_column k s df) c = getitem df c"
  by (simp add: getitem_def map_of_set_column_other)

lemma derived_frame: 
  "setitem (fst (copy_frame h df)) (snd (copy_frame h df)) k s = h @ [set_column k s (h ! df)]"
  by (simp add: setitem_def copy_frame_def)

lemma state_change_bool_run:
  assumes col: "getitem df col = Inr (BoolS bs)"
    and ts: "getitem df ''time.absolute'' = Inr ts"
  shows "\<exists>evs. detect_state_change_events df col prefix ign = Inr evs
     \<and> List.map_filter (\<lambda>ev. map_option (\<lambda>t. (ev, t)) (tmap prefix (activity ev))) evs
     = map (\<lambda>i. (\<lparr>timestamp = cells ts ! i, activity = label prefix True (map BoolV bs) i,
                    val = BoolV (bs ! i)\<rparr>,
                   if bs ! i then activation else recovery)) (flips bs)"
proof -
  let ?idx = "event_indices (changed ign (map BoolV bs))"
  let ?evs = "map (\<lambda>i. \<lparr>timestamp = cells ts ! i, activity = label prefix True (map BoolV bs) i,
                    val = map BoolV bs ! i\<rparr>) ?idx"
  have run: "detect_state_change_events df col prefix ign = Inr ?evs"
    using col ts by (simp add: detect_state_change_events_def Let_def)
  from state_change_bool_tagged [OF col run]
  obtain ts' where same: "flips bs \<noteq> [] \<longrightarrow> getitem df ''time.absolute'' = Inr ts'"
    and form: "List.map_filter (\<lambda>ev. map_option (\<lambda>t. (ev, t)) (tmap prefix (activity ev))) ?evs
     = map (\<lambda>i. (\<lparr>timestamp = cells ts' ! i, activity = label prefix True (map BoolV bs) i,
                    val = BoolV (bs ! i)\<rparr>,
                   if bs ! i then activation else recovery)) (flips bs)"
    by blast
  show ?thesis
  proof (cases "flips bs = []")
    case True
    with form run show ?thesis by simp
  next
    case False
    with same ts have "ts' = ts" by simp
    with form run show ?thesis by simp
  qed
qed

lemma tag_pairing:
  assumes "i \<in> set (flips bs)"
  shows "tag sub (\<lparr>timestamp = cells ts ! i, activity = label prefix True (map BoolV bs) i,
                    val = BoolV (bs ! i)\<rparr>, if bs ! i then activation else recovery)
         = pairing_record ts prefix sub bs i"
  using flips_props [OF assms] by (simp add: tag_def pairing_record_def bool_label)

lemma map_tag_pairing:
  "map (tag sub) (map (\<lambda>i. (\<lparr>timestamp = cells ts ! i, activity = label prefix True (map BoolV bs) i,
                    val = BoolV (bs ! i)\<rparr>, if bs ! i then activation else recovery)) (flips bs))
   = map (pairing_record ts prefix sub bs) (flips bs)"
  unfolding map_map comp_def by (rule map_cong) (simp_all add: tag_pairing)

lemma eval_derived_frame:
  assumes run: "eval_derived ext h df en (col, opr, v) = (h1, ws, Inr (Some fr))"
    and a: "e_args en = Some a" and p: "a_event_name_prefix a = Some prefix"
  shows "\<exists>d f s ts. ops opr = Some f \<and> getitem (h ! df) col = Inr s
           \<and> map_appended (tag sub) fr
               = EventFrame d (map (pairing_record ts prefix sub (compare_series f s v))
                                 (flips (compare_series f s v)))"
proof -
  from run a p obtain f s m events where
    f: "ops opr = Some f" and s: "getitem (h ! df) col = Inr s"
    and m: "e_method en = Some m"
    and call: "call_method ext
        (setitem (fst (copy_frame h df)) (snd (copy_frame h df)) (''_derived_'' @ prefix)
           (BoolS (compare_series f s v)) ! snd (copy_frame h df))
        m (a\<lparr>a_column := Some (''_derived_'' @ prefix)\<rparr>) = Inr events"
    and fr: "\<exists>d. fr = EventFrame d (List.map_filter
                 (\<lambda>ev. map_option (\<lambda>t. (ev, t)) (tmap prefix (activity ev))) events)"
    by (auto simp: eval_derived_def Let_def
             split: if_splits option.splits sum.splits)
  define temp where "temp = ''_derived_'' @ prefix"
  define bs where "bs = compare_series f s v"
  define fr' where "fr' = set_column temp (BoolS bs) (h ! df)"
  have frame: "setitem (fst (copy_frame h df)) (snd (copy_frame h df)) temp (BoolS bs)
                 ! snd (copy_frame h df) = fr'"
    by (simp add: setitem_def copy_frame_def fr'_def)
  from call have call': "call_method ext fr' m (a\<lparr>a_column := Some temp\<rparr>) = Inr events"
    by (simp only: temp_def [symmetric] bs_def [symmetric] frame)
  have p': "a_event_name_prefix (a\<lparr>a_column := Some temp\<rparr>) = Some prefix"
    using p by simp
  from call_method_with_prefix [OF p' call']
  have sc: "detect_state_change_events fr' temp prefix (get_default (a_ignore_nan a) True)
              = Inr events"
    by simp
  have col: "getitem fr' temp = Inr (BoolS bs)"
    unfolding fr'_def by (rule getitem_set_column)
  from state_change_bool_tagged [OF col sc] fr
  obtain ts d where form: "fr = EventFrame d (map (\<lambda>i. (\<lparr>timestamp = cells ts ! i,
        activity = label prefix True (map BoolV bs) i, val = BoolV (bs ! i)\<rparr>,
        if bs ! i then activation else recovery)) (flips bs))"
    by auto
  have "map_appended (tag sub) fr = EventFrame d (map (pairing_record ts prefix sub bs) (flips bs))"
    unfolding form by (simp only: appended.map map_tag_pairing)
  with f s show ?thesis
    unfolding bs_def by blast
qed

lemma eval_derived_ok:
  assumes f: "ops opr = Some f" and s: "getitem (h ! df) col = Inr s"
    and ts: "getitem (h ! df) ''time.absolute'' = Inr ts"
    and a: "e_args en = Some a" and p: "a_event_name_prefix a = Some prefix"
    and m: "e_method en = Some ''detect_state_change_events''"
    and k: "set (keys a) \<subseteq> set [''column'', ''event_name_prefix'', ''ignore_nan'']"
  shows "\<exists>d. eval_derived ext h df en (col, opr, v)
     = (h @ [set_column (''_derived_'' @ prefix) (BoolS (compare_series f s v)) (h ! df)], [],
        Inr (Some (EventFrame d
          (map (\<lambda>i. (\<lparr>timestamp = cells ts ! i,
                  activity = label prefix True (map BoolV (compare_series f s v)) i,
                  val = BoolV (compare_series f s v ! i)\<rparr>,
                 if compare_series f s v ! i then activation else recovery))
             (flips (compare_series f s v))))))"
proof -
  define temp where "temp = ''_derived_'' @ prefix"
  define bs where "bs = compare_series f s v"
  define fr' where "fr' = set_column temp (BoolS bs) (h ! df)"
  define a' where "a' = a\<lparr>a_column := Some temp\<rparr>"
  have c: "col \<in> set (columns (h ! df))"
    using s by (rule getitem_columns)
  have col: "getitem fr' temp = Inr (BoolS bs)"
    unfolding fr'_def by (rule getitem_set_column)
  have "temp \<noteq> ''time.absolute''"
    by (simp add: temp_def)
  then have ts': "getitem fr' ''time.absolute'' = Inr ts"
    unfolding fr'_def using ts by (simp add: getitem_set_column_other)
  from state_change_bool_run [OF col ts', of prefix "get_default (a_ignore_nan a) True"]
  obtain evs where run: "detect_state_change_events fr' temp prefix
        (get_default (a_ignore_nan a) True) = Inr evs"
    and form: "List.map_filter (\<lambda>ev. map_option (\<lambda>t. (ev, t)) (tmap prefix (activity ev))) evs
     = map (\<lambda>i. (\<lparr>timestamp = cells ts ! i, activity = label prefix True (map BoolV bs) i,
                    val = BoolV (bs ! i)\<rparr>,
                   if bs ! i then activation else recovery)) (flips bs)"
    by blast
  have k': "set (keys a') \<subseteq> set [''column'', ''event_name_prefix'', ''ignore_nan'']"
    using k by (auto simp: a'_def keys_def key_def split: option.splits)
  have call: "call_method ext fr' ''detect_state_change_events'' a' = Inr evs"
    using k' p run by (simp add: call_method_def a'_def get_default_def)
  have heap: "setitem (fst (copy_frame h df)) (snd (copy_frame h df)) temp (BoolS bs)
                = h @ [fr']"
    by (simp add: derived_frame fr'_def)
  have nth: "(h @ [fr']) ! snd (copy_frame h df) = fr'"
    by (simp add: copy_frame_def)
  have e: "''_derived_'' @ prefix = temp"
    by (simp add: temp_def)
  note e' = e [simplified]
  have "eval_derived ext h df en (col, opr, v)
     = (h @ [fr'], [],
        Inr (Some (EventFrame (frame_dtype fr' ''detect_state_change_events'' a' evs)
          (map (\<lambda>i. (\<lparr>timestamp = cells ts ! i, activity = label prefix True (map BoolV bs) i,
                    val = BoolV (bs ! i)\<rparr>,
                   if bs ! i then activation else recovery)) (flips bs)))))"
    using c f s a p m
    by (simp add: eval_derived_def Let_def e' bs_def [symmetric] heap nth
          a'_def [symmetric] call form)
  then show ?thesis
    unfolding fr'_def temp_def bs_def by blast
qed

lemma single_rule:
  assumes "e_subsystem en = Some sub"
  shows "dispatch_ship_events ext h df [en] wd =
     (case try_body ext h df wd en of (h1, ws, r) \<Rightarrow>
        (case r of
           Inl exc \<Rightarrow> (h1, ws @ [ProcessingError sub (get_default (e_args en) empty_args) exc], Inr [])
         | Inr None \<Rightarrow> (h1, ws, Inr [])
         | Inr (Some fr) \<Rightarrow>
             (h1, ws, if plain [map_appended (tag sub) fr]
                      then Inr (sort_values (argsort ext) timestamp (rows_of (map_appended (tag sub) fr)))
                      else concat_frames ext [map_appended (tag sub) fr])))"
proof -
  obtain h1 ws r where tb: "try_body ext h df wd en = (h1, ws, r)"
    by (cases "try_body ext h df wd en") auto
  show ?thesis
  proof (cases r)
    case (Inl exc)
    with assms tb show ?thesis by (simp add: dispatch_ship_events_def)
  next
    case (Inr res)
    show ?thesis
    proof (cases res)
      case None
      with assms tb Inr show ?thesis by (simp add: dispatch_ship_events_def)
    next
      case (Some fr)
      with assms tb Inr show ?thesis by (simp add: dispatch_ship_events_def)
    qed
  qed
qed

lemma plain_single: "plain [EventFrame d rows]"
  by (simp add: plain_def)

lemma mset_filter_length:
  "mset xs = mset ys \<Longrightarrow> length (filter P xs) = length (filter P ys)"
  by (metis mset_filter size_mset)

lemma pairing_counts:
  "\<bar>int (length (filter (\<lambda>r. transition_type r = activation)
            (map (pairing_record ts prefix sub bs) (flips bs))))
    - int (length (filter (\<lambda>r. transition_type r = recovery)
            (map (pairing_record ts prefix sub bs) (flips bs))))\<bar> \<le> 1"
proof -
  have ca: "length (filter (\<lambda>r. transition_type r = activation)
            (map (pairing_record ts prefix sub bs) (flips bs))) = length (filter (\<lambda>i. bs ! i) (flips bs))"
    using activation_neq_recovery
    by (simp add: filter_map comp_def pairing_record_def if_distrib [of "\<lambda>t. t = activation"] cong: if_cong)
  have cr: "length (filter (\<lambda>r. transition_type r = recovery)
            (map (pairing_record ts prefix sub bs) (flips bs))) = length (filter (\<lambda>i. \<not> bs ! i) (flips bs))"
    using activation_neq_recovery
    by (simp add: filter_map comp_def pairing_record_def if_distrib [of "\<lambda>t. t = recovery"] cong: if_cong)
  have "\<bar>int (length (filter (\<lambda>i. bs ! i) (flips bs)))
          - int (length (filter (\<lambda>i. \<not> bs ! i) (flips bs)))\<bar> \<le> 1"
  proof (cases "bs = []")
    case True
    then show ?thesis by (simp add: flips_def)
  next
    case False
    from flips_balance [OF False] show ?thesis by (simp split: if_splits)
  qed
  with ca cr show ?thesis by simp
qed

section \<open>Facts about combined conditions\<close>

lemma length_compare_series: "length (compare_series f s thr) = length (cells s)"
  by (cases s) simp_all

lemma build_masks_well_formed:
  "well_formed df n conds \<Longrightarrow>
   \<exists>masks. build_masks df conds = Inr masks
     \<and> list_all2 (\<lambda>m c. length m = n \<and> (\<forall>i. m ! i = condition_holds df c i)) masks conds"
proof (induction conds)
  case Nil
  then show ?case by simp
next
  case (Cons c conds)
  obtain col opr thr where c: "c = (col, opr, thr)" by (cases c) auto
  from Cons.prems c obtain f s where f: "ops opr = Some f" and s: "getitem df col = Inr s"
    and len: "length (cells s) = n" and rest: "well_formed df n conds"
    by (auto simp: well_formed_def split: sum.splits)
  from Cons.IH [OF rest] obtain masks where bm: "build_masks df conds = Inr masks"
    and all: "list_all2 (\<lambda>m c. length m = n \<and> (\<forall>i. m ! i = condition_holds df c i)) masks conds"
    by blast
  have "build_masks df (c # conds) = Inr (compare_series f s thr # masks)"
    using c f s bm by simp
  moreover have "length (compare_series f s thr) = n"
    using len by (simp add: length_compare_series)
  moreover have "\<forall>i. compare_series f s thr ! i = condition_holds df c i"
    using c f s by (simp add: condition_holds_def)
  ultimately show ?case using all by simp
qed

lemma foldl_or:
  "length c = n \<Longrightarrow> \<forall>m \<in> set ms. length m = n \<Longrightarrow>
   length (foldl (\<lambda>c m'. map2 (\<lambda>a b. a \<or> b) c m') c ms) = n
   \<and> (\<forall>i < n. foldl (\<lambda>c m'. map2 (\<lambda>a b. a \<or> b) c m') c ms ! i = (c ! i \<or> (\<exists>m \<in> set ms. m ! i)))"
proof (induction ms arbitrary: c)
  case Nil
  then show ?case by simp
next
  case (Cons m ms)
  have l: "length (map2 (\<lambda>a b. a \<or> b) c m) = n"
    using Cons.prems by simp
  from Cons.IH [OF l] Cons.prems show ?case
    by auto
qed

lemma combine_or:
  assumes "mode \<noteq> ''all''" and "masks \<noteq> []" and "\<forall>m \<in> set masks. length m = n"
  shows "\<exists>comb. combine mode masks = Inr comb \<and> length comb = n
           \<and> (\<forall>i < n. comb ! i = (\<exists>m \<in> set masks. m ! i))"
proof -
  from assms(2) obtain m ms where ms: "masks = m # ms" by (cases masks) auto
  with assms(3) have "length m = n" and "\<forall>m \<in> set ms. length m = n" by simp_all
  from foldl_or [OF this] assms(1) ms show ?thesis
    by (simp add: combine_def)
qed

lemma shift_fill_nth:
  "i < length m \<Longrightarrow> shift_fill m ! i = (if i = 0 then False else m ! (i - 1))"
  by (cases i) (auto simp: shift_fill_def nth_butlast)

lemma rising_edge_indices:
  "event_indices (rising_edge m)
     = filter (\<lambda>i. m ! i \<and> (i = 0 \<or> \<not> m ! (i - 1))) [0..<length m]"
  unfolding event_indices_def length_rising_edge
  by (rule filter_cong) (auto simp: rising_edge_def length_shift_fill shift_fill_nth)

lemma masks_ex:
  "list_all2 (\<lambda>m c. length m = n \<and> (\<forall>i. m ! i = condition_holds df c i)) masks conds \<Longrightarrow>
   (\<exists>m \<in> set masks. m ! i) = list_ex (\<lambda>c. condition_holds df c i) conds"
  by (induction masks conds rule: list_all2_induct) auto

lemma combined_or_edges:
  assumes mode: "mode \<noteq> ''all''" and ne: "conds \<noteq> []"
    and wf: "well_formed df n conds"
    and ts: "getitem df ''time.absolute'' = Inr ts"
  shows "detect_combined_condition_events df conds ev_name mode
           = Inr (map (\<lambda>i. \<lparr>timestamp = cells ts ! i, activity = ev_name, val = FloatV None\<rparr>)
                    (any_edges df n conds))"
proof -
  from build_masks_well_formed [OF wf] obtain masks where bm: "build_masks df conds = Inr masks"
    and all: "list_all2 (\<lambda>m c. length m = n \<and> (\<forall>i. m ! i = condition_holds df c i)) masks conds"
    by blast
  from all ne have mne: "masks \<noteq> []" by auto
  from all have lens: "\<forall>m \<in> set masks. length m = n"
    by (auto simp: list_all2_conv_all_nth in_set_conv_nth)
  from combine_or [OF mode mne lens] obtain comb where cb: "combine mode masks = Inr comb"
    and len: "length comb = n" and nth: "\<forall>i < n. comb ! i = (\<exists>m \<in> set masks. m ! i)"
    by blast
  have ex: "(\<exists>m \<in> set masks. m ! i) = list_ex (\<lambda>c. condition_holds df c i) conds" for i
    using all by (rule masks_ex)
  have "event_indices (rising_edge comb) = any_edges df n conds"
    unfolding rising_edge_indices any_edges_def len
    by (rule filter_cong) (auto simp: nth ex)
  with bm cb ts show ?thesis
    by (simp add: detect_combined_condition_events_def Let_def)
qed

lemma well_formed_columns:
  "well_formed df n conds \<Longrightarrow> filter (\<lambda>c. c \<notin> set (columns df)) (map fst conds) = []"
proof -
  have "fst c \<in> set (columns df)" if "c \<in> set conds" and "well_formed df n conds" for c
  proof -
    obtain col opr thr where c: "c = (col, opr, thr)" by (cases c) auto
    from that c obtain s where "getitem df col = Inr s"
      by (auto simp: well_formed_def list_all_iff split: sum.splits)
    then show ?thesis using c by (simp add: getitem_columns)
  qed
  then show "well_formed df n conds \<Longrightarrow> ?thesis"
    by (auto simp: filter_empty_conv)
qed

lemma eval_simple_combined:
  assumes evs: "detect_combined_condition_events (h ! df) conds ev_name mode = Inr evs"
    and cols: "filter (\<lambda>c. c \<notin> set (columns (h ! df))) (map fst conds) = []"
    and m: "e_method en = Some ''detect_combined_condition_events''"
    and t: "e_transition_type en = Some t"
    and a: "e_args en = Some a"
    and c: "a_conditions a = Some conds" and n: "a_event_name a = Some ev_name"
    and mo: "a_mode a = Some mode"
    and k: "set (keys a) \<subseteq> set [''conditions'', ''event_name'', ''mode'']"
  shows "eval_simple ext h df wd en
           = (h, [], Inr (Some (EventFrame DFloat (map (\<lambda>ev. (ev, t)) evs))))"
proof -
  have call: "call_ec ext (h ! df) ''detect_combined_condition_events'' a
                = Inr (EventFrame DFloat evs)"
    using k c n mo evs
    by (simp add: call_ec_def call_method_def frame_dtype_def get_default_def)
  have "\<not> wd_hasattr ''detect_combined_condition_events''"
    by (simp add: wd_hasattr_def)
  then show ?thesis
    using a c cols m t call
    by (simp add: eval_simple_def Let_def get_default_def split: option.splits)
qed

section \<open>Facts about the energy threshold\<close>










lemma constant_list: "\<forall>x \<in> set xs. x = y \<Longrightarrow> xs = replicate (length xs) y"
  by (induction xs) simp_all







section \<open>Properties\<close>

text \<open>
  C2. The minimum-duration check does not suppress short edges. On the channel
  \<open>x = [0, 10, 0]\<close> the condition \<open>x > 5\<close> holds for one sample only, yet with
  \<open>min_duration_rows = 2\<close> the threshold primitive emits a record at that rising edge
  (the look-ahead window combines the shifted masks with OR, and the first of them is
  the mask itself).
\<close>

theorem threshold_short_edge_emitted:
  "detect_threshold_events table_spike ''x'' 5 ''>'' ''hot'' 2
     = Inr [\<lparr>timestamp = FloatV (Some 1), activity = ''hot'', val = FloatV (Some 10)\<rparr>]"
  by (simp add: eval_primitives table_spike_def)

text \<open>
  C3, as stated, fails: with the default \<open>ignore_nan = True\<close> the channel
  \<open>x = [0, 10, 0]\<close>, which has two value changes, yields two records, none of them at
  the first sample and none labelled Start.
\<close>

theorem state_change_default_no_start:
  "detect_state_change_events table_spike ''x'' ''x'' True
     = Inr [\<lparr>timestamp = FloatV (Some 1), activity = ''x 0->10'', val = FloatV (Some 10)\<rparr>,
            \<lparr>timestamp = FloatV (Some 2), activity = ''x 10->0'', val = FloatV (Some 0)\<rparr>]
   \<and> value_changes (cells (FloatS [Some 0, Some 10, Some 0])) = 2"
  by (simp add: eval_primitives table_spike_def value_changes_def)

text \<open>
  C3, amended. For a channel of a table with a time column: with \<open>ignore_nan = True\<close>
  (the default) state-transition detection emits exactly \<open>n\<close> records, \<open>n\<close> the number
  of value changes ignoring missing values, and no Start record. With
  \<open>ignore_nan = False\<close> and a non-empty channel the first record is the Start record of
  the first sample, and if the channel has no missing value there are \<open>n\<close> more.
\<close>

theorem state_change_record_count:
  assumes col: "getitem df col = Inr s" and ts: "getitem df ''time.absolute'' = Inr ts"
  shows "(\<exists>evs. detect_state_change_events df col prefix True = Inr evs
            \<and> length evs = value_changes (cells s)
            \<and> (\<forall>e \<in> set evs. activity e \<noteq> prefix @ '' Start''))
       \<and> (cells s \<noteq> [] \<longrightarrow>
           (\<exists>evs. detect_state_change_events df col prefix False
               = Inr (\<lparr>timestamp = cells ts ! 0, activity = prefix @ '' Start'',
                        val = cells s ! 0\<rparr> # evs)
            \<and> ((\<forall>c \<in> set (cells s). \<not> isna c) \<longrightarrow> length evs = value_changes (cells s))))"
proof (intro conjI impI)
  let ?idx = "event_indices (changed True (cells s))"
  let ?mk = "\<lambda>i. \<lparr>timestamp = cells ts ! i,
                  activity = label prefix (is_bool_dtype s) (cells s) i, val = cells s ! i\<rparr>"
  have run: "detect_state_change_events df col prefix True = Inr (map ?mk ?idx)"
    using col ts by (simp add: detect_state_change_events_def Let_def)
  have len: "length (map ?mk ?idx) = value_changes (cells s)"
    by (simp add: event_indices_changed_ignore value_changes_def)
  have "0 \<notin> set ?idx"
    by (simp add: event_indices_changed_ignore)
  then have "label prefix (is_bool_dtype s) (cells s) i \<noteq> prefix @ '' Start''"
    if "i \<in> set ?idx" for i
    using that start_label_distinct [of i] by (cases "i = 0") simp_all
  then have nostart: "\<forall>e \<in> set (map ?mk ?idx). activity e \<noteq> prefix @ '' Start''"
    by auto
  show "\<exists>evs. detect_state_change_events df col prefix True = Inr evs
            \<and> length evs = value_changes (cells s)
            \<and> (\<forall>e \<in> set evs. activity e \<noteq> prefix @ '' Start'')"
    using run len nostart by blast
next
  assume ne: "cells s \<noteq> []"
  let ?rest = "filter (\<lambda>i. cell_ne (cells s ! i) (cells s ! (i - 1))) [1..<length (cells s)]"
  let ?mk = "\<lambda>i. \<lparr>timestamp = cells ts ! i,
                  activity = label prefix (is_bool_dtype s) (cells s) i, val = cells s ! i\<rparr>"
  have run: "detect_state_change_events df col prefix False =
      Inr (\<lparr>timestamp = cells ts ! 0, activity = prefix @ '' Start'', val = cells s ! 0\<rparr>
           # map ?mk ?rest)"
    using col ts ne
    by (simp add: detect_state_change_events_def Let_def event_indices_changed_all label_def)
  have cnt: "length (map ?mk ?rest) = value_changes (cells s)"
    if nona: "\<forall>c \<in> set (cells s). \<not> isna c"
  proof -
    have "?rest = filter (\<lambda>i. \<not> isna (cells s ! i) \<and> \<not> isna (cells s ! (i - 1))
              \<and> cell_value (cells s ! i) \<noteq> cell_value (cells s ! (i - 1))) [1..<length (cells s)]"
      using nona by (intro filter_cong) (auto simp: cell_ne_def)
    then show ?thesis by (simp add: value_changes_def)
  qed
  show "\<exists>evs. detect_state_change_events df col prefix False
               = Inr (\<lparr>timestamp = cells ts ! 0, activity = prefix @ '' Start'',
                        val = cells s ! 0\<rparr> # evs)
            \<and> ((\<forall>c \<in> set (cells s). \<not> isna c) \<longrightarrow> length evs = value_changes (cells s))"
    using run cnt by blast
qed

theorem state_change_record_count_witness:
  "getitem table_spike ''x'' = Inr (FloatS [Some 0, Some 10, Some 0])
   \<and> getitem table_spike ''time.absolute'' = Inr (FloatS [Some 0, Some 1, Some 2])
   \<and> (\<exists>evs. detect_state_change_events table_spike ''x'' ''x'' True = Inr evs \<and> length evs = 2)
   \<and> (\<exists>evs. detect_state_change_events table_spike ''x'' ''x'' False
         = Inr (\<lparr>timestamp = FloatV (Some 0), activity = ''x Start'', val = FloatV (Some 0)\<rparr> # evs)
         \<and> length evs = 2)"
proof -
  have c: "getitem table_spike ''x'' = Inr (FloatS [Some 0, Some 10, Some 0])"
    by (simp add: getitem_def table_spike_def)
  have t: "getitem table_spike ''time.absolute'' = Inr (FloatS [Some 0, Some 1, Some 2])"
    by (simp add: getitem_def table_spike_def)
  have n: "value_changes (cells (FloatS [Some 0, Some 10, Some 0])) = 2"
    by (simp add: value_changes_def upt_conv_Cons)
  show ?thesis
    using state_change_record_count [OF c t, of "''x''"] c t n by auto
qed

text \<open>
  C5. A derived-state rule (a rule with a \<open>derived_column\<close>) run by the dispatcher. For
  every store, table, engine and sort that keeps the library's promise, every record of
  a log the dispatcher returns for the rule carries the rule's subsystem and is either
  an activation (the code's \<open>error_activation\<close>) labelled \<open>prefix False->True\<close> with value
  True, or a recovery (\<open>error_recovery\<close>) labelled \<open>prefix True->False\<close> with value False,
  \<open>prefix\<close> being the rule's own \<open>event_name_prefix\<close>: no record with another label,
  such as Start, reaches the log; and the numbers of activation and of recovery records
  differ by at most 1. When the rule is well formed (known comparator, channel and time
  column present, state-change method, no stray keyword) the log is exactly the
  specification's records for the flips of the derived condition, sorted by timestamp;
  no warning is issued, and the store gains the rule's private copy of the table.
\<close>

theorem derived_rule_log:
  assumes d: "e_derived_column en = Some (col, opr, v)"
    and sub: "e_subsystem en = Some sub"
    and a: "e_args en = Some a"
    and p: "a_event_name_prefix a = Some prefix"
    and ok: "argsort_ok (argsort ext)"
  shows "(\<forall>h' ws elog. dispatch_ship_events ext h df [en] wd = (h', ws, Inr elog) \<longrightarrow>
            (\<forall>r \<in> set elog. subsystem r = sub
                \<and> ((transition_type r = activation \<and> activity r = prefix @ '' False->True''
                       \<and> val r = BoolV True)
                   \<or> (transition_type r = recovery \<and> activity r = prefix @ '' True->False''
                       \<and> val r = BoolV False)))
          \<and> \<bar>int (length (filter (\<lambda>r. transition_type r = activation) elog))
               - int (length (filter (\<lambda>r. transition_type r = recovery) elog))\<bar> \<le> 1)
       \<and> (\<forall>f s ts. ops opr = Some f \<and> getitem (h ! df) col = Inr s
                 \<and> getitem (h ! df) ''time.absolute'' = Inr ts
                 \<and> e_method en = Some ''detect_state_change_events''
                 \<and> set (keys a) \<subseteq> set [''column'', ''event_name_prefix'', ''ignore_nan''] \<longrightarrow>
            dispatch_ship_events ext h df [en] wd
              = (h @ [set_column (''_derived_'' @ prefix) (BoolS (compare_series f s v)) (h ! df)],
                 [],
                 Inr (sort_values (argsort ext) timestamp
                        (map (pairing_record ts prefix sub (compare_series f s v))
                           (flips (compare_series f s v))))))"
proof (intro conjI allI impI)
  fix h' ws elog
  assume run: "dispatch_ship_events ext h df [en] wd = (h', ws, Inr elog)"
  have tb: "try_body ext h df wd en = eval_derived ext h df en (col, opr, v)"
    using d by (simp add: try_body_def)
  obtain h1 ws1 r where ed: "eval_derived ext h df en (col, opr, v) = (h1, ws1, r)"
    by (cases "eval_derived ext h df en (col, opr, v)") auto
  have "elog = [] \<or> (\<exists>ts bs. mset elog = mset (map (pairing_record ts prefix sub bs) (flips bs)))"
  proof (cases r)
    case (Inl exc)
    with run show ?thesis
      by (simp add: single_rule [OF sub] tb ed)
  next
    case (Inr res)
    show ?thesis
    proof (cases res)
      case None
      with run Inr show ?thesis
        by (simp add: single_rule [OF sub] tb ed)
    next
      case (Some fr)
      from eval_derived_frame [OF ed [unfolded Inr Some] a p, of sub]
      obtain dt f s ts where fr: "map_appended (tag sub) fr
               = EventFrame dt (map (pairing_record ts prefix sub (compare_series f s v))
                                 (flips (compare_series f s v)))"
        by blast
      from run have "elog = sort_values (argsort ext) timestamp
            (map (pairing_record ts prefix sub (compare_series f s v)) (flips (compare_series f s v)))"
        by (simp add: single_rule [OF sub] tb ed Inr Some fr plain_single)
      then have "mset elog = mset (map (pairing_record ts prefix sub (compare_series f s v))
             (flips (compare_series f s v)))"
        using mset_sort_values [OF ok, where ts = "timestamp :: tagged_event \<Rightarrow> cell"] by simp
      then show ?thesis by blast
    qed
  qed
  then consider "elog = []"
    | ts bs where "mset elog = mset (map (pairing_record ts prefix sub bs) (flips bs))"
    by blast
  then have both: "(\<forall>r \<in> set elog. subsystem r = sub
                \<and> ((transition_type r = activation \<and> activity r = prefix @ '' False->True''
                       \<and> val r = BoolV True)
                   \<or> (transition_type r = recovery \<and> activity r = prefix @ '' True->False''
                       \<and> val r = BoolV False)))
       \<and> \<bar>int (length (filter (\<lambda>r. transition_type r = activation) elog))
               - int (length (filter (\<lambda>r. transition_type r = recovery) elog))\<bar> \<le> 1"
  proof cases
    case 1
    then show ?thesis by simp
  next
    case 2
    from 2 have "set elog = set (map (pairing_record ts prefix sub bs) (flips bs))"
      by (rule mset_eq_setD)
    then have recs: "\<forall>r \<in> set elog. subsystem r = sub
                \<and> ((transition_type r = activation \<and> activity r = prefix @ '' False->True''
                       \<and> val r = BoolV True)
                   \<or> (transition_type r = recovery \<and> activity r = prefix @ '' True->False''
                       \<and> val r = BoolV False))"
      by (auto simp: pairing_record_def)
    from pairing_counts [of ts prefix sub bs]
    have "\<bar>int (length (filter (\<lambda>r. transition_type r = activation) elog))
               - int (length (filter (\<lambda>r. transition_type r = recovery) elog))\<bar> \<le> 1"
      by (simp only: mset_filter_length [OF 2])
    with recs show ?thesis by simp
  qed
  from both show "\<forall>r \<in> set elog. subsystem r = sub
                \<and> ((transition_type r = activation \<and> activity r = prefix @ '' False->True''
                       \<and> val r = BoolV True)
                   \<or> (transition_type r = recovery \<and> activity r = prefix @ '' True->False''
                       \<and> val r = BoolV False))"
    by (rule conjunct1)
  from both show "\<bar>int (length (filter (\<lambda>r. transition_type r = activation) elog))
               - int (length (filter (\<lambda>r. transition_type r = recovery) elog))\<bar> \<le> 1"
    by (rule conjunct2)
next
  fix f s ts
  assume h: "ops opr = Some f \<and> getitem (h ! df) col = Inr s
                 \<and> getitem (h ! df) ''time.absolute'' = Inr ts
                 \<and> e_method en = Some ''detect_state_change_events''
                 \<and> set (keys a) \<subseteq> set [''column'', ''event_name_prefix'', ''ignore_nan'']"
  have tb: "try_body ext h df wd en = eval_derived ext h df en (col, opr, v)"
    using d by (simp add: try_body_def)
  from h have f: "ops opr = Some f" and s: "getitem (h ! df) col = Inr s"
    and ts: "getitem (h ! df) ''time.absolute'' = Inr ts"
    and m: "e_method en = Some ''detect_state_change_events''"
    and k: "set (keys a) \<subseteq> set [''column'', ''event_name_prefix'', ''ignore_nan'']"
    by blast+
  from eval_derived_ok [OF f s ts a p m k, of ext v]
  obtain dt where ed: "eval_derived ext h df en (col, opr, v)
     = (h @ [set_column (''_derived_'' @ prefix) (BoolS (compare_series f s v)) (h ! df)], [],
        Inr (Some (EventFrame dt
          (map (\<lambda>i. (\<lparr>timestamp = cells ts ! i,
                  activity = label prefix True (map BoolV (compare_series f s v)) i,
                  val = BoolV (compare_series f s v ! i)\<rparr>,
                 if compare_series f s v ! i then activation else recovery))
             (flips (compare_series f s v))))))"
    by blast
  show "dispatch_ship_events ext h df [en] wd
              = (h @ [set_column (''_derived_'' @ prefix) (BoolS (compare_series f s v)) (h ! df)],
                 [],
                 Inr (sort_values (argsort ext) timestamp
                        (map (pairing_record ts prefix sub (compare_series f s v))
                           (flips (compare_series f s v)))))"
    by (simp only: single_rule [OF sub] tb ed prod.case sum.case option.case appended.map
          plain_single if_True rows_of.simps map_tag_pairing)
qed

text \<open>The end-to-end scenario as an instance: one activation, one recovery.\<close>

theorem derived_rule_log_witness:
  "e_derived_column rule_low_oil = Some (''oil_psi'', ''<'', 5)
   \<and> e_subsystem rule_low_oil = Some ''Lubrication''
   \<and> e_args rule_low_oil = Some (empty_args\<lparr>a_event_name_prefix := Some ''low_oil''\<rparr>)
   \<and> argsort_ok (argsort example_externals)
   \<and> getitem ([table_oil] ! 0) ''oil_psi''
        = Inr (FloatS [Some 30, Some 30, Some 30, Some 4, Some 4, Some 30])
   \<and> getitem ([table_oil] ! 0) ''time.absolute''
        = Inr (FloatS [Some 0, Some 1, Some 2, Some 3, Some 4, Some 5])
   \<and> dispatch_ship_events example_externals [table_oil] 0 [rule_low_oil] None
       = ([table_oil, table_oil @ [(''_derived_low_oil'',
                                    BoolS [False, False, False, True, True, False])]],
          [],
          Inr [\<lparr>timestamp = FloatV (Some 3), activity = ''low_oil False->True'', val = BoolV True,
                 transition_type = ''error_activation'', subsystem = ''Lubrication''\<rparr>,
               \<lparr>timestamp = FloatV (Some 5), activity = ''low_oil True->False'', val = BoolV False,
                 transition_type = ''error_recovery'', subsystem = ''Lubrication''\<rparr>])
   \<and> \<bar>int (length (filter (\<lambda>r. transition_type r = activation)
              [\<lparr>timestamp = FloatV (Some 3), activity = ''low_oil False->True'', val = BoolV True,
                 transition_type = ''error_activation'', subsystem = ''Lubrication''\<rparr>,
               \<lparr>timestamp = FloatV (Some 5), activity = ''low_oil True->False'', val = BoolV False,
                 transition_type = ''error_recovery'', subsystem = ''Lubrication''\<rparr>]))
        - int (length (filter (\<lambda>r. transition_type r = recovery)
              [\<lparr>timestamp = FloatV (Some 3), activity = ''low_oil False->True'', val = BoolV True,
                 transition_type = ''error_activation'', subsystem = ''Lubrication''\<rparr>,
               \<lparr>timestamp = FloatV (Some 5), activity = ''low_oil True->False'', val = BoolV False,
                 transition_type = ''error_recovery'', subsystem = ''Lubrication''\<rparr>]))\<bar> \<le> 1"
proof -
  let ?log = "[\<lparr>timestamp = FloatV (Some 3), activity = ''low_oil False->True'', val = BoolV True,
                 transition_type = ''error_activation'', subsystem = ''Lubrication''\<rparr>,
               \<lparr>timestamp = FloatV (Some 5), activity = ''low_oil True->False'', val = BoolV False,
                 transition_type = ''error_recovery'', subsystem = ''Lubrication''\<rparr>]"
  have d: "e_derived_column rule_low_oil = Some (''oil_psi'', ''<'', 5)"
    by (simp add: rule_low_oil_def)
  have sub: "e_subsystem rule_low_oil = Some ''Lubrication''"
    by (simp add: rule_low_oil_def)
  have a: "e_args rule_low_oil = Some (empty_args\<lparr>a_event_name_prefix := Some ''low_oil''\<rparr>)"
    by (simp add: rule_low_oil_def)
  have p: "a_event_name_prefix (empty_args\<lparr>a_event_name_prefix := Some ''low_oil''\<rparr>)
             = Some ''low_oil''"
    by simp
  have ok: "argsort_ok (argsort example_externals)"
    by (simp add: example_externals_def argsort_ok_stable)
  have f: "ops ''<'' = Some (\<lambda>s t. s < t)"
    by (simp add: ops_def)
  have s: "getitem ([table_oil] ! 0) ''oil_psi''
        = Inr (FloatS [Some 30, Some 30, Some 30, Some 4, Some 4, Some 30])"
    by (simp add: getitem_def table_oil_def)
  have ts: "getitem ([table_oil] ! 0) ''time.absolute''
        = Inr (FloatS [Some 0, Some 1, Some 2, Some 3, Some 4, Some 5])"
    by (simp add: getitem_def table_oil_def)
  have m: "e_method rule_low_oil = Some ''detect_state_change_events''"
    by (simp add: rule_low_oil_def)
  have k: "set (keys (empty_args\<lparr>a_event_name_prefix := Some ''low_oil''\<rparr>))
             \<subseteq> set [''column'', ''event_name_prefix'', ''ignore_nan'']"
    by (simp add: keys_def key_def empty_args_def)
  note both = derived_rule_log [OF d sub a p ok, of "[table_oil]" 0 None]
  from both [THEN conjunct2, rule_format, of "\<lambda>s t. s < t"
      "FloatS [Some 30, Some 30, Some 30, Some 4, Some 4, Some 30]"
      "FloatS [Some 0, Some 1, Some 2, Some 3, Some 4, Some 5]"] f s ts m k
  have run: "dispatch_ship_events example_externals [table_oil] 0 [rule_low_oil] None
       = ([table_oil, table_oil @ [(''_derived_low_oil'',
                                    BoolS [False, False, False, True, True, False])]],
          [], Inr ?log)"
    by (simp add: flips_def upt_conv_Cons pairing_record_def sort_values_def stable_argsort_def
          ts_key_def example_externals_def activation_def recovery_def table_oil_def)
  from both [THEN conjunct1, rule_format, OF run]
  have "\<bar>int (length (filter (\<lambda>r. transition_type r = activation) ?log))
        - int (length (filter (\<lambda>r. transition_type r = recovery) ?log))\<bar> \<le> 1"
    by (rule conjunct2)
  with d sub a ok s ts run show ?thesis
    by (simp only: simp_thms)
qed

text \<open>
  C4. The end-to-end scenario: for the table with \<open>oil_psi = [30, 30, 30, 4, 4, 30]\<close> at
  timestamps 0..5 and the single derived-state rule on \<open>oil_psi < 5\<close> (subsystem
  Lubrication, prefix \<open>low_oil\<close>), the log is exactly two records, an activation at
  timestamp 3 and a recovery at timestamp 5, both of subsystem Lubrication; no warning
  is issued, and the only change to the store is the rule's private copy. This holds for
  every sort that keeps the library's promise and with or without a wavelet engine.
\<close>

theorem end_to_end_low_oil:
  assumes "argsort_ok (argsort ext)"
  shows "dispatch_ship_events ext [table_oil] 0 [rule_low_oil] wd
     = ([table_oil, table_oil @ [(''_derived_low_oil'', BoolS [False, False, False, True, True, False])]],
        [],
        Inr [\<lparr>timestamp = FloatV (Some 3), activity = ''low_oil False->True'', val = BoolV True,
               transition_type = ''error_activation'', subsystem = ''Lubrication''\<rparr>,
             \<lparr>timestamp = FloatV (Some 5), activity = ''low_oil True->False'', val = BoolV False,
               transition_type = ''error_recovery'', subsystem = ''Lubrication''\<rparr>])"
proof -
  let ?rows = "[\<lparr>timestamp = FloatV (Some 3), activity = ''low_oil False->True'', val = BoolV True,
               transition_type = ''error_activation'', subsystem = ''Lubrication''\<rparr>,
             \<lparr>timestamp = FloatV (Some 5), activity = ''low_oil True->False'', val = BoolV False,
               transition_type = ''error_recovery'', subsystem = ''Lubrication''\<rparr>]"
  have "sort_values (argsort ext) timestamp ?rows = ?rows"
    by (rule sort_values_distinct_sorted [OF assms]) (simp_all add: ts_key_def)
  then show ?thesis
    unfolding dispatch_ship_events_def loop_oil by (simp add: plain_def)
qed

text \<open>The scenario run with the stable sort.\<close>

theorem end_to_end_low_oil_witness:
  "argsort_ok (argsort example_externals)
   \<and> snd (snd (dispatch_ship_events example_externals [table_oil] 0 [rule_low_oil] None))
     = Inr [\<lparr>timestamp = FloatV (Some 3), activity = ''low_oil False->True'', val = BoolV True,
               transition_type = ''error_activation'', subsystem = ''Lubrication''\<rparr>,
             \<lparr>timestamp = FloatV (Some 5), activity = ''low_oil True->False'', val = BoolV False,
               transition_type = ''error_recovery'', subsystem = ''Lubrication''\<rparr>]"
proof -
  have ok: "argsort_ok (argsort example_externals)"
    by (simp add: example_externals_def argsort_ok_stable)
  from end_to_end_low_oil [OF ok, of None] ok show ?thesis
    by simp
qed

text \<open>
  C6. An exception does escape the dispatcher: \<open>entry["subsystem"]\<close> is read before the
  \<open>try\<close>. With a valid rule followed by a rule without \<open>subsystem\<close>, the dispatcher
  raises KeyError: there is no log and no diagnostic, and the records of the valid rule
  are lost.
\<close>

theorem missing_subsystem_escapes:
  "dispatch_ship_events ext [table_oil] 0 [rule_low_oil, rule_no_subsystem] wd
     = ([table_oil, table_oil @ [(''_derived_low_oil'', BoolS [False, False, False, True, True, False])]],
        [], Inl KeyError)"
  by (simp add: dispatch_ship_events_def rule_no_subsystem_def rule_low_oil_def table_oil_def
        eval_dispatch eval_primitives)

text \<open>
  C7, as stated, fails: the unknown combine mode \<open>xor\<close> raises nothing; the primitive
  returns the record of the rising edge.
\<close>

theorem combined_unknown_mode_accepted:
  "detect_combined_condition_events table_spike [(''x'', ''>'', 5)] ''hot'' ''xor''
     = Inr [\<lparr>timestamp = FloatV (Some 1), activity = ''hot'', val = FloatV None\<rparr>]"
  by (simp add: eval_primitives table_spike_def)

text \<open>
  C7, amended. For every combine mode other than \<open>all\<close>, known or not, and every
  non-empty list of well-formed conditions on a table with a time column, the
  combined-condition primitive reports no error: it returns one record for each row
  where the logical OR of the conditions becomes true (some condition holds there, none
  at the row before). Under the dispatcher a rule with such a mode is not skipped and
  yields no diagnostic: its log is these records, tagged with the rule's transition type
  and subsystem and sorted by timestamp.
\<close>

theorem unknown_mode_is_or:
  assumes mode: "mode \<noteq> ''all''"
    and ne: "conds \<noteq> []"
    and wf: "well_formed (h ! df) n conds"
    and ts: "getitem (h ! df) ''time.absolute'' = Inr ts"
    and sub: "e_subsystem en = Some sub"
    and d: "e_derived_column en = None"
    and m: "e_method en = Some ''detect_combined_condition_events''"
    and t: "e_transition_type en = Some t"
    and a: "e_args en = Some a"
    and c: "a_conditions a = Some conds"
    and ev: "a_event_name a = Some ev_name"
    and mo: "a_mode a = Some mode"
    and k: "set (keys a) \<subseteq> set [''conditions'', ''event_name'', ''mode'']"
  shows "detect_combined_condition_events (h ! df) conds ev_name mode
           = Inr (map (\<lambda>i. \<lparr>timestamp = cells ts ! i, activity = ev_name, val = FloatV None\<rparr>)
                    (any_edges (h ! df) n conds))
       \<and> dispatch_ship_events ext h df [en] wd
           = (h, [],
              Inr (sort_values (argsort ext) timestamp
                     (map (\<lambda>i. \<lparr>timestamp = cells ts ! i, activity = ev_name, val = FloatV None,
                                  transition_type = t, subsystem = sub\<rparr>)
                        (any_edges (h ! df) n conds))))"
proof
  show prim: "detect_combined_condition_events (h ! df) conds ev_name mode
           = Inr (map (\<lambda>i. \<lparr>timestamp = cells ts ! i, activity = ev_name, val = FloatV None\<rparr>)
                    (any_edges (h ! df) n conds))"
    using mode ne wf ts by (rule combined_or_edges)
  have tb: "try_body ext h df wd en = eval_simple ext h df wd en"
    using d by (simp add: try_body_def)
  note es = eval_simple_combined [OF prim well_formed_columns [OF wf] m t a c ev mo k, of ext wd]
  show "dispatch_ship_events ext h df [en] wd
           = (h, [],
              Inr (sort_values (argsort ext) timestamp
                     (map (\<lambda>i. \<lparr>timestamp = cells ts ! i, activity = ev_name, val = FloatV None,
                                  transition_type = t, subsystem = sub\<rparr>)
                        (any_edges (h ! df) n conds))))"
    by (simp add: single_rule [OF sub] tb es plain_single tag_def comp_def)
qed

text \<open>
  Two conditions that never hold together, with the unknown mode \<open>xor\<close>: the OR becomes
  true at row 1, where the record is emitted and logged; mode \<open>all\<close> emits nothing on the
  same input.
\<close>

theorem unknown_mode_is_or_witness:
  "''xor'' \<noteq> ''all''
   \<and> well_formed ([table_two] ! 0) 3 [(''a'', ''>'', 0), (''b'', ''>'', 0)]
   \<and> getitem ([table_two] ! 0) ''time.absolute'' = Inr (FloatS [Some 0, Some 1, Some 2])
   \<and> any_edges ([table_two] ! 0) 3 [(''a'', ''>'', 0), (''b'', ''>'', 0)] = [1]
   \<and> detect_combined_condition_events ([table_two] ! 0) [(''a'', ''>'', 0), (''b'', ''>'', 0)]
        ''either'' ''xor''
       = Inr [\<lparr>timestamp = FloatV (Some 1), activity = ''either'', val = FloatV None\<rparr>]
   \<and> dispatch_ship_events example_externals [table_two] 0 [rule_combined ''xor''] None
       = ([table_two], [],
          Inr [\<lparr>timestamp = FloatV (Some 1), activity = ''either'', val = FloatV None,
                 transition_type = ''error_activation'', subsystem = ''Brakes''\<rparr>])
   \<and> detect_combined_condition_events ([table_two] ! 0) [(''a'', ''>'', 0), (''b'', ''>'', 0)]
        ''either'' ''all''
       = Inr []"
proof -
  let ?conds = "[(''a'', ''>'', 0), (''b'', ''>'', 0 :: real)]"
  let ?a = "empty_args\<lparr>a_conditions := Some ?conds, a_event_name := Some ''either'',
                         a_mode := Some ''xor''\<rparr>"
  have mode: "''xor'' \<noteq> ''all''" by simp
  have ne: "?conds \<noteq> []" by simp
  have wf: "well_formed ([table_two] ! 0) 3 ?conds"
    by (simp add: well_formed_def table_two_def getitem_def ops_def)
  have ts: "getitem ([table_two] ! 0) ''time.absolute'' = Inr (FloatS [Some 0, Some 1, Some 2])"
    by (simp add: getitem_def table_two_def)
  have sub: "e_subsystem (rule_combined ''xor'') = Some ''Brakes''"
    by (simp add: rule_combined_def)
  have d: "e_derived_column (rule_combined ''xor'') = None"
    by (simp add: rule_combined_def)
  have m: "e_method (rule_combined ''xor'') = Some ''detect_combined_condition_events''"
    by (simp add: rule_combined_def)
  have t: "e_transition_type (rule_combined ''xor'') = Some ''error_activation''"
    by (simp add: rule_combined_def)
  have a: "e_args (rule_combined ''xor'') = Some ?a"
    by (simp add: rule_combined_def)
  have c: "a_conditions ?a = Some ?conds" by simp
  have ev: "a_event_name ?a = Some ''either''" by simp
  have mo: "a_mode ?a = Some ''xor''" by simp
  have k: "set (keys ?a) \<subseteq> set [''conditions'', ''event_name'', ''mode'']"
    by (simp add: keys_def key_def empty_args_def)
  have edges': "any_edges table_two 3 ?conds = [1]"
    by (simp add: any_edges_def condition_holds_def table_two_def getitem_def ops_def
          upt_conv_Cons)
  then have edges: "any_edges ([table_two] ! 0) 3 ?conds = [1]"
    by simp
  have conj: "detect_combined_condition_events ([table_two] ! 0) ?conds ''either'' ''all'' = Inr []"
    by (simp add: eval_primitives table_two_def)
  from unknown_mode_is_or [OF mode ne wf ts sub d m t a c ev mo k, of example_externals None]
  have "detect_combined_condition_events ([table_two] ! 0) ?conds ''either'' ''xor''
       = Inr [\<lparr>timestamp = FloatV (Some 1), activity = ''either'', val = FloatV None\<rparr>]
     \<and> dispatch_ship_events example_externals [table_two] 0 [rule_combined ''xor''] None
       = ([table_two], [],
          Inr [\<lparr>timestamp = FloatV (Some 1), activity = ''either'', val = FloatV None,
                 transition_type = ''error_activation'', subsystem = ''Brakes''\<rparr>])"
    by (simp add: edges' sort_values_def stable_argsort_def ts_key_def example_externals_def)
  with mode wf ts edges conj show ?thesis
    by (simp only: simp_thms)
qed

text \<open>
  C8. Dispatching leaves the caller's table, and every table that existed before the
  call, as it was: the final store is the initial store followed by the frames allocated
  during the call (the per-rule copies that receive the derived columns). This holds
  whether the call returns a log or raises.
\<close>

theorem dispatch_preserves_tables:
  assumes "df < length h" and "dispatch_ship_events ext h df config wd = (h', ws, res)"
  shows "(\<exists>fs. h' = h @ fs) \<and> take (length h) h' = h \<and> h' ! df = h ! df"
proof -
  from dispatch_loop_heap [of ext df wd config "\<lparr>st_heap = h, st_warnings = [], st_frames = []\<rparr>"]
  obtain fs where "st_heap (fst (dispatch_loop ext df wd config
      \<lparr>st_heap = h, st_warnings = [], st_frames = []\<rparr>)) = h @ fs"
    by auto
  with assms(2) have "h' = h @ fs"
    by (auto simp: dispatch_ship_events_def split: prod.splits option.splits)
  with assms(1) show ?thesis by (simp add: nth_append)
qed

theorem dispatch_preserves_tables_witness:
  "(0::nat) < length [table_oil]
   \<and> fst (dispatch_ship_events example_externals [table_oil] 0 [rule_low_oil] None) ! 0
       = table_oil"
proof -
  let ?r = "dispatch_ship_events example_externals [table_oil] 0 [rule_low_oil] None"
  have l: "(0::nat) < length [table_oil]" by simp
  have r: "?r = (fst ?r, fst (snd ?r), snd (snd ?r))" by simp
  from dispatch_preserves_tables [OF l r] show ?thesis by simp
qed

text \<open>
  C9. Called directly with an empty conditions list, the combined-condition primitive
  fails (with IndexError, from \<open>masks[0]\<close>) for every table, event name and mode; it
  does not return an empty event set.
\<close>

theorem combined_empty_conditions_fails:
  "detect_combined_condition_events df [] ev_name mode = Inl IndexError"
  by (simp add: detect_combined_condition_events_def combine_def)




end
